theory Spec2Isabelle
  imports Main "HOL-Library.AList"
begin

section \<open>Python values\<close>

text \<open>
  The program is \<^verbatim>\<open>oneshot.py\<close>, a client of the GSPro launch-monitor protocol. Its
  values are modelled as follows.
  \<^item> \<^verbatim>\<open>bytes\<close> is a list of \<open>char\<close> (a HOL \<open>char\<close> is one byte), so a byte literal
    \<^verbatim>\<open>b'{"a":1}'\<close> is the string literal of the same characters.
  \<^item> \<^verbatim>\<open>str\<close> is a list of Unicode code points (\<open>nat\<close>); \<open>ascii s\<close> is the \<^verbatim>\<open>str\<close> with the
    characters of the ASCII literal \<open>s\<close>.
  \<^item> \<^verbatim>\<open>int\<close> is \<open>int\<close> (unbounded).
  \<^item> A \<^verbatim>\<open>float\<close> is carried as the decimal text that denotes it; floating-point arithmetic
    and the rounding of \<^verbatim>\<open>float()\<close> and \<^verbatim>\<open>repr()\<close> are not modelled.
  \<^item> A \<^verbatim>\<open>dict\<close> is an association list in insertion order with one entry per key
    (\<open>dict_set\<close> replaces the value of a key in place and appends a new key at the end, as
    Python dictionaries do).
  \<^item> \<open>PData\<close> is an instance of a dataclass: its fields, in declaration order, with their
    values (what \<^verbatim>\<open>dataclasses.fields\<close> and \<^verbatim>\<open>getattr\<close> give).
  An exception is a value of type \<open>error\<close>; a function that may raise returns \<open>error + 'a\<close>,
  one that also changes an object returns the object with the outcome, and one that may run
  forever returns an \<open>option\<close> on top (\<open>None\<close>: it never returns). The interpreter's resource
  limits (recursion depth, memory) and the logging calls are left out.
\<close>

type_synonym bytes = "char list"

type_synonym pystr = "nat list"

type_synonym pyfloat = pystr

definition ascii :: "string \<Rightarrow> pystr" where
  "ascii s = map of_char s"

datatype error =
    UnicodeDecodeError
  | AssertionError
  | AttributeError
  | TypeError
  | ValueError
  | OSError

datatype pyval =
    PNone
  | PBool bool
  | PInt int
  | PFloat pyfloat
  | PStr pystr
  | PList "pyval list"
  | PDict "(pystr \<times> pyval) list"
  | PData "(pystr \<times> pyval) list"

type_synonym pydict = "(pystr \<times> pyval) list"

definition dict_set :: "pydict \<Rightarrow> pystr \<Rightarrow> pyval \<Rightarrow> pydict" where
  "dict_set d k v = AList.update k v d"

section \<open>Library functions the program calls\<close>

subsection \<open>bytes.decode, str.find, slicing\<close>

text \<open>
  \<^verbatim>\<open>data.decode()\<close> decodes UTF-8 strictly: it raises \<^verbatim>\<open>UnicodeDecodeError\<close> on a stray
  continuation byte, a truncated or overlong sequence, a surrogate and a code point above
  U+10FFFF.
\<close>

definition is_cont :: "nat \<Rightarrow> bool" where
  "is_cont b = (128 \<le> b \<and> b < 192)"

fun utf8_decode :: "nat list \<Rightarrow> pystr option" where
  "utf8_decode [] = Some []"
| "utf8_decode (b # bs) =
     (if b < 128 then map_option (Cons b) (utf8_decode bs)
      else if 194 \<le> b \<and> b < 224 then
        (case bs of
           b1 # r \<Rightarrow>
             if is_cont b1
             then map_option (Cons ((b - 192) * 64 + (b1 - 128))) (utf8_decode r)
             else None
         | _ \<Rightarrow> None)
      else if 224 \<le> b \<and> b < 240 then
        (case bs of
           b1 # b2 # r \<Rightarrow>
             (let cp = (b - 224) * 4096 + (b1 - 128) * 64 + (b2 - 128)
              in if is_cont b1 \<and> is_cont b2 \<and> 2048 \<le> cp \<and> \<not> (55296 \<le> cp \<and> cp < 57344)
                 then map_option (Cons cp) (utf8_decode r)
                 else None)
         | _ \<Rightarrow> None)
      else if 240 \<le> b \<and> b < 245 then
        (case bs of
           b1 # b2 # b3 # r \<Rightarrow>
             (let cp = (b - 240) * 262144 + (b1 - 128) * 4096 + (b2 - 128) * 64 + (b3 - 128)
              in if is_cont b1 \<and> is_cont b2 \<and> is_cont b3 \<and> 65536 \<le> cp \<and> cp \<le> 1114111
                 then map_option (Cons cp) (utf8_decode r)
                 else None)
         | _ \<Rightarrow> None)
      else None)"

definition bytes_decode :: "bytes \<Rightarrow> error + pystr" where
  "bytes_decode data =
     (case utf8_decode (map of_char data) of
        None \<Rightarrow> Inl UnicodeDecodeError
      | Some s \<Rightarrow> Inr s)"

text \<open>
  \<^verbatim>\<open>data.find(c, start)\<close> for a one-character \<open>c\<close> and \<open>start \<ge> 0\<close>: the least index from
  \<open>start\<close> on that holds \<open>c\<close>, and \<open>-1\<close> when there is none.
\<close>

fun index_of :: "'a \<Rightarrow> 'a list \<Rightarrow> nat option" where
  "index_of c [] = None"
| "index_of c (x # xs) = (if x = c then Some 0 else map_option Suc (index_of c xs))"

definition find_str :: "pystr \<Rightarrow> nat \<Rightarrow> nat \<Rightarrow> int" where
  "find_str data c start =
     (case index_of c (drop start data) of
        None \<Rightarrow> - 1
      | Some i \<Rightarrow> int (start + i))"

text \<open>
  \<^verbatim>\<open>data[lo:hi]\<close> for \<open>lo \<ge> 0\<close>: a negative \<open>hi\<close> counts from the end, both ends are
  clipped to the string, and the slice is empty when \<open>hi \<le> lo\<close>; nothing is raised.
\<close>

definition slice :: "'a list \<Rightarrow> nat \<Rightarrow> int \<Rightarrow> 'a list" where
  "slice data lo hi =
     (let stop = (if hi < 0 then max 0 (hi + int (length data)) else hi)
      in take (nat stop - lo) (drop lo data))"

subsection \<open>json.loads\<close>

text \<open>
  The decoder of the standard library, as its scanner is written: \<open>scan_once\<close> reads one
  value at the head of the text and returns it with the rest of the text, \<open>parse_object\<close>
  and \<open>parse_array\<close> are the loops over the members of an object and the elements of an
  array, \<open>scanstring\<close> reads a string body in strict mode and \<open>match_number\<close> is the number
  pattern. \<open>None\<close> is \<^verbatim>\<open>JSONDecodeError\<close>. A repeated key keeps its first position and its
  last value. An integer is read as \<open>PInt\<close>; a number with a fraction or an exponent, and
  the constants \<^verbatim>\<open>NaN\<close>, \<^verbatim>\<open>Infinity\<close> and \<^verbatim>\<open>-Infinity\<close>, are read as \<open>PFloat\<close> of their text.
\<close>

definition is_ws :: "nat \<Rightarrow> bool" where
  "is_ws c = (c = 32 \<or> c = 9 \<or> c = 10 \<or> c = 13)"

definition skip_ws :: "pystr \<Rightarrow> pystr" where
  "skip_ws s = dropWhile is_ws s"

definition is_digit :: "nat \<Rightarrow> bool" where
  "is_digit c = (48 \<le> c \<and> c \<le> 57)"

definition hex_digit :: "nat \<Rightarrow> nat option" where
  "hex_digit c =
     (if 48 \<le> c \<and> c \<le> 57 then Some (c - 48)
      else if 97 \<le> c \<and> c \<le> 102 then Some (c - 87)
      else if 65 \<le> c \<and> c \<le> 70 then Some (c - 55)
      else None)"

fun hex_value :: "pystr \<Rightarrow> nat \<Rightarrow> nat option" where
  "hex_value [] acc = Some acc"
| "hex_value (c # cs) acc =
     (case hex_digit c of
        None \<Rightarrow> None
      | Some d \<Rightarrow> hex_value cs (acc * 16 + d))"

definition decode_uXXXX :: "pystr \<Rightarrow> nat option" where
  "decode_uXXXX s = (if length s < 4 then None else hex_value (take 4 s) 0)"

definition backslash :: "nat \<Rightarrow> nat option" where
  "backslash e =
     (if e = 34 then Some 34
      else if e = 92 then Some 92
      else if e = 47 then Some 47
      else if e = 98 then Some 8
      else if e = 102 then Some 12
      else if e = 110 then Some 10
      else if e = 114 then Some 13
      else if e = 116 then Some 9
      else None)"

text \<open>
  \<open>scanstring s acc\<close> starts after the opening quote with the characters read so far in
  \<open>acc\<close>. Code 34 is the quote, 92 the backslash, 117 the letter u; a \<^verbatim>\<open>\uXXXX\<close> escape of a
  high surrogate followed by one of a low surrogate is one character.
\<close>

fun scanstring :: "pystr \<Rightarrow> pystr \<Rightarrow> (pystr \<times> pystr) option" where
  "scanstring [] acc = None"
| "scanstring (c # cs) acc =
     (if c = 34 then Some (acc, cs)
      else if c = 92 then
        (case cs of
           [] \<Rightarrow> None
         | e # r \<Rightarrow>
             if e = 117 then
               (case decode_uXXXX r of
                  None \<Rightarrow> None
                | Some uni \<Rightarrow>
                    if 55296 \<le> uni \<and> uni \<le> 56319 \<and> take 2 (drop 4 r) = [92, 117] then
                      (case decode_uXXXX (drop 6 r) of
                         None \<Rightarrow> None
                       | Some uni2 \<Rightarrow>
                           if 56320 \<le> uni2 \<and> uni2 \<le> 57343
                           then scanstring (drop 10 r)
                                  (acc @ [65536 + (uni - 55296) * 1024 + (uni2 - 56320)])
                           else scanstring (drop 4 r) (acc @ [uni]))
                    else scanstring (drop 4 r) (acc @ [uni]))
             else
               (case backslash e of
                  None \<Rightarrow> None
                | Some ch \<Rightarrow> scanstring r (acc @ [ch])))
      else if c < 32 then None
      else scanstring cs (acc @ [c]))"

fun digits_value :: "pystr \<Rightarrow> int \<Rightarrow> int" where
  "digits_value [] acc = acc"
| "digits_value (c # cs) acc = digits_value cs (acc * 10 + (int c - 48))"

text \<open>
  The number pattern \<^verbatim>\<open>(-?(?:0|[1-9][0-9]*))(\.[0-9]+)?([eE][-+]?[0-9]+)?\<close>, matched at the
  head of the text: 45 is the minus sign, 46 the point, 101 and 69 the letters e and E.
\<close>

definition match_number :: "pystr \<Rightarrow> (pyval \<times> pystr) option" where
  "match_number s =
     (let neg = (take 1 s = [45]);
          s1 = (if neg then drop 1 s else s);
          intpart = (case s1 of
                       [] \<Rightarrow> []
                     | d # r \<Rightarrow> if d = 48 then [d]
                                else if is_digit d then takeWhile is_digit s1
                                else []);
          s2 = drop (length intpart) s1;
          frac = (case s2 of
                    p # d # r \<Rightarrow> if p = 46 \<and> is_digit d then p # takeWhile is_digit (d # r) else []
                  | _ \<Rightarrow> []);
          s3 = drop (length frac) s2;
          exp = (case s3 of
                   [] \<Rightarrow> []
                 | e # r \<Rightarrow>
                     if e = 101 \<or> e = 69 then
                       (let sgn = (case r of
                                     g # d # r' \<Rightarrow> if g = 45 \<or> g = 43 then [g] else []
                                   | _ \<Rightarrow> []);
                            ds = takeWhile is_digit (drop (length sgn) r)
                        in if ds = [] then [] else e # sgn @ ds)
                     else []);
          s4 = drop (length exp) s3
      in if intpart = [] then None
         else if frac = [] \<and> exp = []
         then Some (PInt ((if neg then - 1 else 1) * digits_value intpart 0), s4)
         else Some (PFloat (take (length s - length s4) s), s4))"

definition literal_or_number :: "pystr \<Rightarrow> (pyval \<times> pystr) option" where
  "literal_or_number s =
     (if take 4 s = ascii ''null'' then Some (PNone, drop 4 s)
      else if take 4 s = ascii ''true'' then Some (PBool True, drop 4 s)
      else if take 5 s = ascii ''false'' then Some (PBool False, drop 5 s)
      else if take 3 s = ascii ''NaN'' then Some (PFloat (ascii ''NaN''), drop 3 s)
      else if take 8 s = ascii ''Infinity'' then Some (PFloat (ascii ''Infinity''), drop 8 s)
      else if take 9 s = ascii ''-Infinity'' then Some (PFloat (ascii ''-Infinity''), drop 9 s)
      else match_number s)"

text \<open>
  Code 123 and 125 are the braces, 91 and 93 the brackets, 58 the colon and 44 the comma.
  \<open>parse_object s rval\<close> stands where a key is expected, with the members read so far in
  \<open>rval\<close>; \<open>parse_array s rval\<close> stands where an element is expected. The test
  \<open>length r < length s\<close> before each further member holds whenever it is reached (a value and
  a comma have been read); it is there for the termination proof.
\<close>

function scan_once :: "pystr \<Rightarrow> (pyval \<times> pystr) option"
  and parse_object :: "pystr \<Rightarrow> pydict \<Rightarrow> (pyval \<times> pystr) option"
  and parse_array :: "pystr \<Rightarrow> pyval list \<Rightarrow> (pyval \<times> pystr) option"
where
  "scan_once s =
     (case s of
        [] \<Rightarrow> None
      | c # cs \<Rightarrow>
          if c = 34 then map_option (\<lambda>(v, r). (PStr v, r)) (scanstring cs [])
          else if c = 123 then
            (case skip_ws cs of
               [] \<Rightarrow> None
             | c' # r \<Rightarrow> if c' = 125 then Some (PDict [], r) else parse_object (c' # r) [])
          else if c = 91 then
            (case skip_ws cs of
               [] \<Rightarrow> None
             | c' # r \<Rightarrow> if c' = 93 then Some (PList [], r) else parse_array (c' # r) [])
          else literal_or_number s)"
| "parse_object s rval =
     (case s of
        [] \<Rightarrow> None
      | c # cs \<Rightarrow>
          if c \<noteq> 34 then None
          else
            (case scanstring cs [] of
               None \<Rightarrow> None
             | Some (key, r1) \<Rightarrow>
                 (case skip_ws r1 of
                    [] \<Rightarrow> None
                  | c1 # r2 \<Rightarrow>
                      if c1 \<noteq> 58 then None
                      else
                        (case scan_once (skip_ws r2) of
                           None \<Rightarrow> None
                         | Some (val, r3) \<Rightarrow>
                             (case skip_ws r3 of
                                [] \<Rightarrow> None
                              | c2 # r4 \<Rightarrow>
                                  if c2 = 125 then Some (PDict (dict_set rval key val), r4)
                                  else if c2 = 44 \<and> length r4 < length s
                                  then parse_object (skip_ws r4) (dict_set rval key val)
                                  else None)))))"
| "parse_array s rval =
     (case scan_once s of
        None \<Rightarrow> None
      | Some (val, r1) \<Rightarrow>
          (case skip_ws r1 of
             [] \<Rightarrow> None
           | c # r2 \<Rightarrow>
               if c = 93 then Some (PList (rval @ [val]), r2)
               else if c = 44 \<and> length r2 < length s
               then parse_array (skip_ws r2) (rval @ [val])
               else None))"
  by pat_completeness auto
termination
proof (relation "measure (\<lambda>x. case x of
           Inl s \<Rightarrow> 2 * length s
         | Inr (Inl (s, _)) \<Rightarrow> 2 * length s + 1
         | Inr (Inr (s, _)) \<Rightarrow> 2 * length s + 1)", goal_cases)
  have ws: "length (skip_ws t) \<le> length t" for t
    by (simp add: skip_ws_def length_dropWhile_le)
  have str: "scanstring t acc = Some (v, r) \<Longrightarrow> length r < length t" for t acc v r
  proof (induction t acc arbitrary: v r rule: scanstring.induct)
    case (1 acc)
    then show ?case by simp
  next
    case (2 c cs acc)
    then show ?case
      by (fastforce split: if_splits list.splits option.splits)
  qed
  {
    case 1
    then show ?case by simp
  next
    case (2 s c cs c' r)
    then show ?case using ws [of cs] by simp
  next
    case (3 s c cs c' r)
    then show ?case using ws [of cs] by simp
  next
    case (4 s rval c cs x key r1 c1 r2)
    then show ?case
      using ws [of r1] ws [of r2] str [of cs "[]" key r1] by simp
  next
    case (5 s rval c cs x key r1 c1 r2 y val r3 c2 r4)
    then show ?case using ws [of r4] by simp
  next
    case (6 s rval)
    then show ?case by simp
  next
    case (7 s rval x val r1 c r2)
    then show ?case using ws [of r2] by simp
  }
qed

declare scan_once.simps [simp del] parse_object.simps [simp del] parse_array.simps [simp del]

definition json_loads :: "pystr \<Rightarrow> pyval option" where
  "json_loads s =
     (case scan_once (skip_ws s) of
        None \<Rightarrow> None
      | Some (obj, r) \<Rightarrow> if skip_ws r = [] then Some obj else None)"

subsection \<open>json.dumps and the encoding to bytes\<close>

text \<open>
  \<^verbatim>\<open>json.dumps\<close> with its default options: the separators are \<^verbatim>\<open>", "\<close> and \<^verbatim>\<open>": "\<close>, and every
  character outside the printable ASCII range is escaped, so the text it returns is ASCII
  and \<^verbatim>\<open>bytes(text, encoding="utf8")\<close> has one byte for each of its characters. A dataclass
  instance is not serializable (\<^verbatim>\<open>TypeError\<close>).
\<close>

fun serializable :: "pyval \<Rightarrow> bool" where
  "serializable (PData fs) = False"
| "serializable (PList xs) = list_all serializable xs"
| "serializable (PDict kvs) = list_all (\<lambda>kv. serializable (snd kv)) kvs"
| "serializable _ = True"

fun digits :: "nat \<Rightarrow> pystr" where
  "digits n = (if n < 10 then [48 + n] else digits (n div 10) @ [48 + n mod 10])"

declare digits.simps [simp del]

definition int_repr :: "int \<Rightarrow> pystr" where
  "int_repr i = (if i < 0 then 45 # digits (nat (- i)) else digits (nat i))"

definition hex_char :: "nat \<Rightarrow> nat" where
  "hex_char d = (if d < 10 then 48 + d else 87 + d)"

definition uescape :: "nat \<Rightarrow> pystr" where
  "uescape c =
     [92, 117, hex_char (c div 4096 mod 16), hex_char (c div 256 mod 16),
      hex_char (c div 16 mod 16), hex_char (c mod 16)]"

definition escape_char :: "nat \<Rightarrow> pystr" where
  "escape_char c =
     (if c = 34 then [92, 34]
      else if c = 92 then [92, 92]
      else if c = 10 then [92, 110]
      else if c = 13 then [92, 114]
      else if c = 9 then [92, 116]
      else if c = 12 then [92, 102]
      else if c = 8 then [92, 98]
      else if 32 \<le> c \<and> c \<le> 126 then [c]
      else if c < 65536 then uescape c
      else uescape (55296 + (c - 65536) div 1024 mod 1024) @ uescape (56320 + (c - 65536) mod 1024))"

definition encode_basestring_ascii :: "pystr \<Rightarrow> pystr" where
  "encode_basestring_ascii s = [34] @ concat (map escape_char s) @ [34]"

fun join :: "pystr \<Rightarrow> pystr list \<Rightarrow> pystr" where
  "join sep [] = []"
| "join sep [x] = x"
| "join sep (x # y # ys) = x @ sep @ join sep (y # ys)"

fun encode :: "pyval \<Rightarrow> pystr" where
  "encode PNone = ascii ''null''"
| "encode (PBool b) = (if b then ascii ''true'' else ascii ''false'')"
| "encode (PInt i) = int_repr i"
| "encode (PFloat r) = r"
| "encode (PStr s) = encode_basestring_ascii s"
| "encode (PList xs) = [91] @ join (ascii '', '') (map encode xs) @ [93]"
| "encode (PDict kvs) =
     [123] @ join (ascii '', '')
       (map (\<lambda>kv. encode_basestring_ascii (fst kv) @ ascii '': '' @ encode (snd kv)) kvs) @ [125]"
| "encode (PData fs) = []"

definition json_dumps :: "pyval \<Rightarrow> error + pystr" where
  "json_dumps obj = (if serializable obj then Inr (encode obj) else Inl TypeError)"

definition str_encode :: "pystr \<Rightarrow> bytes" where
  "str_encode s = map char_of s"

section \<open>The message model\<close>

text \<open>
  The dataclasses \<^verbatim>\<open>BallData\<close>, \<^verbatim>\<open>ShotDataOptions\<close> and \<^verbatim>\<open>Shot\<close>, with the types of their
  annotations; a field whose default is \<^verbatim>\<open>None\<close> is an \<open>option\<close>.
\<close>

record BallData =
  Speed :: pyfloat
  SpinAxis :: pyfloat
  TotalSpin :: pyfloat
  HLA :: pyfloat
  VLA :: pyfloat

record ShotDataOptions =
  ContainsBallData :: bool
  ContainsClubData :: bool
  LaunchMonitorIsReady :: "bool option"
  LaunchMonitorBallDetected :: "bool option"
  IsHeartbeat :: "bool option"

record Shot =
  DeviceID :: pystr
  Units :: pystr
  ShotNumber :: int
  APIVersion :: pystr
  BallData :: "BallData option"
  ShotDataOptions :: ShotDataOptions

text \<open>
  What \<^verbatim>\<open>fields\<close> and \<^verbatim>\<open>getattr\<close> see of an instance: the field names in declaration order,
  each with its value.
\<close>

definition optional_bool :: "bool option \<Rightarrow> pyval" where
  "optional_bool b = (case b of None \<Rightarrow> PNone | Some v \<Rightarrow> PBool v)"

definition BallData_obj :: "BallData \<Rightarrow> pyval" where
  "BallData_obj b =
     PData [(ascii ''Speed'', PFloat (Speed b)),
            (ascii ''SpinAxis'', PFloat (SpinAxis b)),
            (ascii ''TotalSpin'', PFloat (TotalSpin b)),
            (ascii ''HLA'', PFloat (HLA b)),
            (ascii ''VLA'', PFloat (VLA b))]"

definition ShotDataOptions_obj :: "ShotDataOptions \<Rightarrow> pyval" where
  "ShotDataOptions_obj opts =
     PData [(ascii ''ContainsBallData'', PBool (ContainsBallData opts)),
            (ascii ''ContainsClubData'', PBool (ContainsClubData opts)),
            (ascii ''LaunchMonitorIsReady'', optional_bool (LaunchMonitorIsReady opts)),
            (ascii ''LaunchMonitorBallDetected'', optional_bool (LaunchMonitorBallDetected opts)),
            (ascii ''IsHeartbeat'', optional_bool (IsHeartbeat opts))]"

definition Shot_obj :: "Shot \<Rightarrow> pyval" where
  "Shot_obj s =
     PData [(ascii ''DeviceID'', PStr (DeviceID s)),
            (ascii ''Units'', PStr (Units s)),
            (ascii ''ShotNumber'', PInt (ShotNumber s)),
            (ascii ''APIVersion'', PStr (APIVersion s)),
            (ascii ''BallData'', (case BallData s of None \<Rightarrow> PNone | Some b \<Rightarrow> BallData_obj b)),
            (ascii ''ShotDataOptions'', ShotDataOptions_obj (ShotDataOptions s))]"

text \<open>
  \<^verbatim>\<open>asdict_ignore_none\<close>: the loop \<^verbatim>\<open>for f in fields(obj)\<close> with the dictionary \<open>result\<close> built
  so far. A value that is \<^verbatim>\<open>None\<close> is skipped, a dataclass instance is converted by the
  recursive call, any other value is stored as it is.
\<close>

function asdict_loop :: "(pystr \<times> pyval) list \<Rightarrow> pydict \<Rightarrow> pydict" where
  "asdict_loop [] result = result"
| "asdict_loop ((name, val) # fs) result =
     (case val of
        PNone \<Rightarrow> asdict_loop fs result
      | PData vfs \<Rightarrow> asdict_loop fs (dict_set result name (PDict (asdict_loop vfs [])))
      | _ \<Rightarrow> asdict_loop fs (dict_set result name val))"
  by pat_completeness auto
termination
  by (relation "measure (\<lambda>(fs, result). size_list (size_prod (\<lambda>_. 0) size) fs)") auto

definition asdict_ignore_none :: "pyval \<Rightarrow> error + pydict" where
  "asdict_ignore_none obj =
     (case obj of
        PData fs \<Rightarrow> Inr (asdict_loop fs [])
      | _ \<Rightarrow> Inl AssertionError)"

text \<open>
  Constructing a \<^verbatim>\<open>Shot\<close>: the generated \<^verbatim>\<open>__init__\<close> stores its arguments (\<open>Shot_default\<close> holds
  the defaults) and calls \<^verbatim>\<open>__post_init__\<close>, which overwrites \<^verbatim>\<open>ShotNumber\<close> with the class
  attribute \<^verbatim>\<open>Shot.next_shot_number\<close> and increments the attribute. The attribute is the
  only state shared by all Shots; it is passed in and returned. \<^verbatim>\<open>dataclasses.replace\<close>
  constructs a new instance in the same way.
\<close>

definition ShotDataOptions_default :: ShotDataOptions where
  "ShotDataOptions_default =
     \<lparr>ContainsBallData = True, ContainsClubData = False, LaunchMonitorIsReady = None,
      LaunchMonitorBallDetected = None, IsHeartbeat = None\<rparr>"

definition Shot_default :: Shot where
  "Shot_default =
     \<lparr>DeviceID = ascii ''GSPro LM 1.1'', Units = ascii ''Yards'', ShotNumber = - 1,
      APIVersion = ascii ''1'', BallData = None, ShotDataOptions = ShotDataOptions_default\<rparr>"

definition initial_shot_number :: int where
  "initial_shot_number = 42"

definition post_init :: "Shot \<Rightarrow> int \<Rightarrow> Shot \<times> int" where
  "post_init self counter = (self\<lparr>ShotNumber := counter\<rparr>, counter + 1)"

definition Shot_new :: "Shot \<Rightarrow> int \<Rightarrow> Shot \<times> int" where
  "Shot_new args counter = post_init args counter"

definition as_msg :: "Shot \<Rightarrow> error + bytes" where
  "as_msg self =
     (case asdict_ignore_none (Shot_obj self) of
        Inl e \<Rightarrow> Inl e
      | Inr d \<Rightarrow>
          (case json_dumps (PDict d) of
             Inl e \<Rightarrow> Inl e
           | Inr text \<Rightarrow> Inr (str_encode text)))"

definition heartbeat :: "int \<Rightarrow> Shot \<times> int" where
  "heartbeat counter =
     Shot_new (Shot_default\<lparr>ShotDataOptions :=
        \<lparr>ContainsBallData = False, ContainsClubData = False, LaunchMonitorIsReady = None,
         LaunchMonitorBallDetected = None, IsHeartbeat = Some True\<rparr>\<rparr>) counter"

text \<open>
  \<^verbatim>\<open>GSProMessage\<close>: \<^verbatim>\<open>create_from_dict\<close> stores the decoded values as they are, whatever the
  annotations say, so every field is a \<open>pyval\<close>. \<open>pop_fields\<close> is the loop
  \<^verbatim>\<open>for f in fields(cls)\<close> over the four fields of the class with the copy \<open>dct\<close> and the
  \<open>kwargs\<close> built so far; \<open>GSProMessage_new\<close> is the call \<^verbatim>\<open>cls(**kwargs)\<close>, which raises
  \<^verbatim>\<open>TypeError\<close> when \<^verbatim>\<open>Code\<close>, the one field without a default, is missing.
\<close>

record GSProMessage =
  Code :: pyval
  Message :: pyval
  Player :: pyval
  Xtra :: pyval

definition GSProMessage_fields :: "pystr list" where
  "GSProMessage_fields = [ascii ''Code'', ascii ''Message'', ascii ''Player'', ascii ''Xtra'']"

definition GSProMessage_new :: "pydict \<Rightarrow> error + GSProMessage" where
  "GSProMessage_new kwargs =
     (if list_ex (\<lambda>k. k \<notin> set GSProMessage_fields) (map fst kwargs) then Inl TypeError
      else
        (case map_of kwargs (ascii ''Code'') of
           None \<Rightarrow> Inl TypeError
         | Some code \<Rightarrow>
             Inr \<lparr>Code = code,
                  Message = (case map_of kwargs (ascii ''Message'') of None \<Rightarrow> PNone | Some v \<Rightarrow> v),
                  Player = (case map_of kwargs (ascii ''Player'') of None \<Rightarrow> PNone | Some v \<Rightarrow> v),
                  Xtra = (case map_of kwargs (ascii ''Xtra'') of None \<Rightarrow> PDict [] | Some v \<Rightarrow> v)\<rparr>))"

fun pop_fields :: "pystr list \<Rightarrow> pydict \<Rightarrow> pydict \<Rightarrow> pydict \<times> pydict" where
  "pop_fields [] dct kwargs = (dct, kwargs)"
| "pop_fields (name # fs) dct kwargs =
     (case map_of dct name of
        Some v \<Rightarrow> pop_fields fs (AList.delete name dct) (dict_set kwargs name v)
      | None \<Rightarrow> pop_fields fs dct kwargs)"

definition create_from_dict :: "pydict \<Rightarrow> error + GSProMessage" where
  "create_from_dict dct =
     (case pop_fields GSProMessage_fields dct [] of
        (dct', kwargs) \<Rightarrow> GSProMessage_new (dict_set kwargs (ascii ''Xtra'') (PDict dct')))"

section \<open>The frame splitter\<close>

text \<open>
  \<^verbatim>\<open>parse_gspro_data\<close>. \<open>find_msg\<close> is the inner loop \<^verbatim>\<open>while msg is None\<close>: it looks for the
  next closing brace (code 125) from \<open>start\<close>, tries to decode the text from
  \<open>len_processed\<close> through that brace, and on \<^verbatim>\<open>JSONDecodeError\<close> goes on with
  \<^verbatim>\<open>start = start + len(substr)\<close>; it leaves the loop with \<open>msg\<close> and \<open>substr\<close> once
  \<open>msg\<close> is not \<^verbatim>\<open>None\<close> (a decoded \<^verbatim>\<open>null\<close> would leave \<open>msg\<close> at \<^verbatim>\<open>None\<close> and \<open>start\<close>
  unchanged). \<open>split_loop\<close>
  is the outer loop \<^verbatim>\<open>while len_processed < len(data)\<close> with its assertion that the character
  at \<open>len_processed\<close> is the opening brace (code 123). Neither loop has a bound, so both
  are partial: \<open>None\<close> means that the loop does not end.
\<close>

partial_function (option) find_msg :: "pystr \<Rightarrow> nat \<Rightarrow> nat \<Rightarrow> (pyval \<times> pystr) option" where
  "find_msg data len_processed start =
     (let idx_of_close_bracket = find_str data 125 start;
          substr = slice data len_processed (idx_of_close_bracket + 1)
      in case json_loads substr of
           Some msg \<Rightarrow>
             if msg = PNone then find_msg data len_processed start else Some (msg, substr)
         | None \<Rightarrow> find_msg data len_processed (start + length substr))"

partial_function (option) split_loop :: "pystr \<Rightarrow> nat \<Rightarrow> pyval list \<Rightarrow> (error + pyval list) option" where
  "split_loop data len_processed result =
     (if len_processed < length data then
        (if data ! len_processed \<noteq> 123 then Some (Inl AssertionError)
         else
           (case find_msg data len_processed len_processed of
              None \<Rightarrow> None
            | Some (msg, substr) \<Rightarrow>
                split_loop data (len_processed + length substr) (result @ [msg])))
      else Some (Inr result))"

definition parse_gspro_data :: "bytes \<Rightarrow> (error + pyval list) option" where
  "parse_gspro_data data =
     (case bytes_decode data of
        Inl e \<Rightarrow> Some (Inl e)
      | Inr text \<Rightarrow> split_loop text 0 [])"

section \<open>The session\<close>

text \<open>
  The socket is the environment of the session: \<open>inbound\<close> holds the bytes the peer has
  sent and the session has not read yet, \<open>outbound\<close> the bytes the transport has accepted,
  \<open>send_room\<close> the number of bytes the transport accepts in the next \<^verbatim>\<open>send\<close>. \<^verbatim>\<open>recv(n)\<close>
  returns at most \<open>n\<close> of the pending bytes, \<^verbatim>\<open>send(data)\<close> returns how many bytes it has
  accepted, and both raise \<^verbatim>\<open>OSError\<close> on a closed socket. The model has no time, so
  waiting is not modelled: a \<^verbatim>\<open>recv\<close> that finds nothing pending returns no bytes at once,
  which is what the program sees when the peer has closed the connection.
\<close>

record socket =
  is_closed :: bool
  inbound :: bytes
  outbound :: bytes
  send_room :: nat

definition sock_recv :: "socket \<Rightarrow> nat \<Rightarrow> error + (bytes \<times> socket)" where
  "sock_recv s bufsize =
     (if is_closed s then Inl OSError
      else Inr (take bufsize (inbound s), s\<lparr>inbound := drop bufsize (inbound s)\<rparr>))"

definition sock_send :: "socket \<Rightarrow> bytes \<Rightarrow> error + (nat \<times> socket)" where
  "sock_send s data =
     (if is_closed s then Inl OSError
      else
        (let n = min (send_room s) (length data)
         in Inr (n, s\<lparr>outbound := outbound s @ take n data, send_room := send_room s - n\<rparr>)))"

datatype log_entry = LogShot Shot | LogMessage GSProMessage

record GSProSession =
  gspro_host :: pystr
  gspro_port :: int
  sock :: socket
  shots_and_responses :: "log_entry list"

text \<open>
  \<^verbatim>\<open>recv_data\<close> builds its messages with \<^verbatim>\<open>GSProMessage.create(dct)\<close>. The class defines
  \<^verbatim>\<open>create_from_dict\<close> and no attribute \<^verbatim>\<open>create\<close>, so evaluating that expression raises
  \<^verbatim>\<open>AttributeError\<close>; the list comprehension evaluates it once for every decoded object, in
  order (\<open>create_each\<close>). The method has no \<^verbatim>\<open>return\<close> statement: its outcome is an error or
  nothing.
\<close>

definition GSProMessage_create :: "pyval \<Rightarrow> error + GSProMessage" where
  "GSProMessage_create dct = Inl AttributeError"

fun create_each :: "pyval list \<Rightarrow> error + GSProMessage list" where
  "create_each [] = Inr []"
| "create_each (dct # dcts) =
     (case GSProMessage_create dct of
        Inl e \<Rightarrow> Inl e
      | Inr m \<Rightarrow>
          (case create_each dcts of
             Inl e \<Rightarrow> Inl e
           | Inr ms \<Rightarrow> Inr (m # ms)))"

definition recv_data :: "GSProSession \<Rightarrow> (GSProSession \<times> (error + unit)) option" where
  "recv_data self =
     (case sock_recv (sock self) 2048 of
        Inl e \<Rightarrow> Some (self, Inl e)
      | Inr (resp_bytes, sock') \<Rightarrow>
          (let self1 = self\<lparr>sock := sock'\<rparr>
           in case parse_gspro_data resp_bytes of
                None \<Rightarrow> None
              | Some (Inl e) \<Rightarrow> Some (self1, Inl e)
              | Some (Inr dcts) \<Rightarrow>
                  (case create_each dcts of
                     Inl e \<Rightarrow> Some (self1, Inl e)
                   | Inr msgs \<Rightarrow>
                       Some (self1\<lparr>shots_and_responses :=
                               shots_and_responses self1 @ map LogMessage msgs\<rparr>, Inr ()))))"

text \<open>
  \<^verbatim>\<open>send_shot\<close>, in the order of its statements: serialize, append to the log, send,
  compare the lengths.
\<close>

definition send_shot :: "GSProSession \<Rightarrow> Shot \<Rightarrow> GSProSession \<times> (error + unit)" where
  "send_shot self golfshot =
     (case as_msg golfshot of
        Inl e \<Rightarrow> (self, Inl e)
      | Inr shot_data \<Rightarrow>
          (let self1 = self\<lparr>shots_and_responses := shots_and_responses self @ [LogShot golfshot]\<rparr>
           in case sock_send (sock self1) shot_data of
                Inl e \<Rightarrow> (self1, Inl e)
              | Inr (nbytes_sent, sock') \<Rightarrow>
                  (let self2 = self1\<lparr>sock := sock'\<rparr>
                   in if length shot_data \<noteq> nbytes_sent then (self2, Inl ValueError)
                      else (self2, Inr ()))))"

definition send_heartbeat :: "GSProSession \<Rightarrow> int \<Rightarrow> (GSProSession \<times> (error + unit)) \<times> int" where
  "send_heartbeat self counter =
     (case heartbeat counter of (hb, counter') \<Rightarrow> (send_shot self hb, counter'))"

definition close :: "GSProSession \<Rightarrow> GSProSession" where
  "close self = self\<lparr>sock := (sock self)\<lparr>is_closed := True\<rparr>\<rparr>"

text \<open>
  A run of the process, to speak about every construction of a Shot: the state is the
  class attribute \<open>next_shot_number\<close>, the session, and the Shots constructed so far in
  the order of their construction. The actions are those the command loop of \<^verbatim>\<open>main\<close>
  performs: constructing a Shot from given field values (the call \<^verbatim>\<open>Shot(...)\<close> and
  \<^verbatim>\<open>replace\<close>), \<^verbatim>\<open>Shot.heartbeat()\<close>, \<^verbatim>\<open>send_heartbeat\<close>, \<^verbatim>\<open>send_shot\<close> and \<^verbatim>\<open>close\<close>. A run goes
  on after an action that raises, so the runs of the model include those of the program.
\<close>

datatype action =
    Construct Shot
  | Heartbeat
  | SendHeartbeat
  | SendShot Shot
  | Close

record process =
  next_shot_number :: int
  conn :: GSProSession
  shots_built :: "Shot list"

fun step :: "process \<Rightarrow> action \<Rightarrow> process" where
  "step p (Construct args) =
     (case Shot_new args (next_shot_number p) of
        (s, n) \<Rightarrow> p\<lparr>next_shot_number := n, shots_built := shots_built p @ [s]\<rparr>)"
| "step p Heartbeat =
     (case heartbeat (next_shot_number p) of
        (s, n) \<Rightarrow> p\<lparr>next_shot_number := n, shots_built := shots_built p @ [s]\<rparr>)"
| "step p SendHeartbeat =
     (case send_heartbeat (conn p) (next_shot_number p) of
        ((c, outcome), n) \<Rightarrow>
          p\<lparr>next_shot_number := n, conn := c,
            shots_built := shots_built p @ [fst (heartbeat (next_shot_number p))]\<rparr>)"
| "step p (SendShot s) = p\<lparr>conn := fst (send_shot (conn p) s)\<rparr>"
| "step p Close = p\<lparr>conn := close (conn p)\<rparr>"

definition run :: "process \<Rightarrow> action list \<Rightarrow> process" where
  "run p acts = foldl step p acts"

definition initial_process :: "GSProSession \<Rightarrow> process" where
  "initial_process c = \<lparr>next_shot_number = initial_shot_number, conn = c, shots_built = []\<rparr>"

text \<open>
  The states of the outer loop of \<^verbatim>\<open>parse_gspro_data\<close>: \<open>cursor_at data len_processed result\<close>
  holds when the loop reaches its head with these values of \<open>len_processed\<close> and \<open>result\<close>,
  at the start or after a decoded object.
\<close>

inductive cursor_at :: "pystr \<Rightarrow> nat \<Rightarrow> pyval list \<Rightarrow> bool" where
  start: "cursor_at data 0 []"
| next_frame: "cursor_at data len_processed result \<Longrightarrow> len_processed < length data \<Longrightarrow>
     data ! len_processed = 123 \<Longrightarrow>
     find_msg data len_processed len_processed = Some (msg, substr) \<Longrightarrow>
     cursor_at data (len_processed + length substr) (result @ [msg])"

section \<open>Facts about the JSON decoder\<close>

text \<open>
  Every scanner consumes at least one character of what it is given. So the tests on the
  lengths in \<^verbatim>\<open>parse_object\<close> and \<^verbatim>\<open>parse_array\<close> always succeed, and the two functions satisfy
  the equations of the loops without them.
\<close>

lemma match_number_shorter: "match_number s = Some (v, r) \<Longrightarrow> length r < length s"
proof -
  assume a: "match_number s = Some (v, r)"
  define s1 where "s1 = (if take 1 s = [45] then drop 1 s else s)"
  define intpart where "intpart = (case s1 of
                       [] \<Rightarrow> []
                     | d # r \<Rightarrow> if d = 48 then [d]
                                else if is_digit d then takeWhile is_digit s1
                                else [])"
  have s1: "length s1 \<le> length s"
    by (simp add: s1_def)
  have ip: "length intpart \<le> length s1"
    by (auto simp: intpart_def length_takeWhile_le split: list.splits)
  from a have ne: "intpart \<noteq> []"
    unfolding match_number_def Let_def s1_def [symmetric] intpart_def [symmetric]
    by (simp split: if_splits)
  from a have "length r \<le> length s1 - length intpart"
    unfolding match_number_def Let_def s1_def [symmetric] intpart_def [symmetric]
    by (auto split: if_splits)
  moreover from ne have "1 \<le> length intpart"
    by (cases intpart) simp_all
  ultimately show ?thesis using s1 ip by linarith
qed

lemma skip_ws_length: "length (skip_ws t) \<le> length t"
  by (simp add: skip_ws_def length_dropWhile_le)

lemma scanstring_shorter: "scanstring t acc = Some (v, r) \<Longrightarrow> length r < length t"
proof (induction t acc arbitrary: v r rule: scanstring.induct)
  case (1 acc)
  then show ?case by simp
next
  case (2 c cs acc)
  then show ?case
    by (fastforce split: if_splits list.splits option.splits)
qed

lemma take_eq_length: "take n s = xs \<Longrightarrow> length xs = n \<Longrightarrow> n \<le> length s"
proof -
  assume "take n s = xs" and "length xs = n"
  then have "length (take n s) = n" by simp
  then show ?thesis by simp
qed

lemma literal_shorter:
  assumes "take n s = ascii w" and "length w = n" and "0 < n"
  shows "length (drop n s) < length s"
proof -
  have "n \<le> length s"
    using assms(1,2) by (intro take_eq_length [of n s "ascii w"]) (simp_all add: ascii_def)
  with assms(3) show ?thesis by simp
qed

lemma literal_or_number_shorter:
  assumes "literal_or_number s = Some (v, r)"
  shows "length r < length s"
proof -
  consider "take 4 s = ascii ''null''" | "take 4 s = ascii ''true''" | "take 5 s = ascii ''false''"
    | "take 3 s = ascii ''NaN''" | "take 8 s = ascii ''Infinity''" | "take 9 s = ascii ''-Infinity''"
    | "match_number s = Some (v, r)"
    using assms by (auto simp: literal_or_number_def split: if_splits)
  then show ?thesis
  proof cases
    case 1
    with assms have "r = drop 4 s" by (simp add: literal_or_number_def)
    with 1 show ?thesis using literal_shorter [of 4 s "''null''"] by simp
  next
    case 2
    with assms have "r = drop 4 s" by (auto simp: literal_or_number_def split: if_splits)
    with 2 show ?thesis using literal_shorter [of 4 s "''true''"] by simp
  next
    case 3
    with assms have "r = drop 5 s \<or> r = drop 4 s"
      by (auto simp: literal_or_number_def split: if_splits)
    with 3 show ?thesis using literal_shorter [of 5 s "''false''"] by auto
  next
    case 4
    with assms have "r = drop 3 s \<or> r = drop 4 s \<or> r = drop 5 s"
      by (auto simp: literal_or_number_def split: if_splits)
    with 4 show ?thesis using literal_shorter [of 3 s "''NaN''"] by auto
  next
    case 5
    with assms have "r = drop 8 s \<or> r = drop 3 s \<or> r = drop 4 s \<or> r = drop 5 s"
      by (auto simp: literal_or_number_def split: if_splits)
    with 5 show ?thesis using literal_shorter [of 8 s "''Infinity''"] by auto
  next
    case 6
    with assms have "r = drop 9 s \<or> r = drop 8 s \<or> r = drop 3 s \<or> r = drop 4 s \<or> r = drop 5 s"
      by (auto simp: literal_or_number_def split: if_splits)
    with 6 show ?thesis using literal_shorter [of 9 s "''-Infinity''"] by auto
  next
    case 7
    then show ?thesis by (rule match_number_shorter)
  qed
qed

lemma scan_once_Cons:
  "scan_once (c # cs) =
     (if c = 34 then map_option (\<lambda>(v, r). (PStr v, r)) (scanstring cs [])
      else if c = 123 then
        (case skip_ws cs of
           [] \<Rightarrow> None
         | c' # r \<Rightarrow> if c' = 125 then Some (PDict [], r) else parse_object (c' # r) [])
      else if c = 91 then
        (case skip_ws cs of
           [] \<Rightarrow> None
         | c' # r \<Rightarrow> if c' = 93 then Some (PList [], r) else parse_array (c' # r) [])
      else literal_or_number (c # cs))"
  by (simp add: scan_once.simps [of "c # cs"])

lemma parse_object_cases:
  assumes "parse_object s rval = Some (v, r)"
  obtains cs key r1 r2 val r3 c2 r4 where
    "s = 34 # cs" "scanstring cs [] = Some (key, r1)" "skip_ws r1 = 58 # r2"
    "scan_once (skip_ws r2) = Some (val, r3)" "skip_ws r3 = c2 # r4"
    "c2 = 125 \<and> v = PDict (dict_set rval key val) \<and> r = r4 \<or>
     c2 \<noteq> 125 \<and> c2 = 44 \<and> length r4 < length s \<and>
       parse_object (skip_ws r4) (dict_set rval key val) = Some (v, r)"
proof -
  from assms obtain c cs where s: "s = c # cs"
    by (cases s) (simp_all add: parse_object.simps [of "[]"])
  note eq = assms [unfolded s parse_object.simps [of "c # cs"], simplified]
  from eq have c: "c = 34"
    by (simp split: if_splits)
  from eq c obtain key r1 where k: "scanstring cs [] = Some (key, r1)"
    by (cases "scanstring cs []") auto
  from eq c k obtain c1 r2 where w1: "skip_ws r1 = c1 # r2"
    by (cases "skip_ws r1") auto
  from eq c k w1 have c1: "c1 = 58"
    by (simp split: if_splits)
  from eq c k w1 c1 obtain val r3 where sc: "scan_once (skip_ws r2) = Some (val, r3)"
    by (cases "scan_once (skip_ws r2)") auto
  from eq c k w1 c1 sc obtain c2 r4 where w2: "skip_ws r3 = c2 # r4"
    by (cases "skip_ws r3") auto
  from eq c k w1 c1 sc w2
  have "c2 = 125 \<and> v = PDict (dict_set rval key val) \<and> r = r4 \<or>
     c2 \<noteq> 125 \<and> c2 = 44 \<and> length r4 < length s \<and>
       parse_object (skip_ws r4) (dict_set rval key val) = Some (v, r)"
    by (simp add: s split: if_splits)
  with s c k w1 c1 sc w2 show thesis
    by (intro that [of cs key r1 r2 val r3 c2 r4]) simp_all
qed

lemma parse_array_cases:
  assumes "parse_array s rval = Some (v, r)"
  obtains val r1 c r2 where
    "scan_once s = Some (val, r1)" "skip_ws r1 = c # r2"
    "c = 93 \<and> v = PList (rval @ [val]) \<and> r = r2 \<or>
     c \<noteq> 93 \<and> c = 44 \<and> length r2 < length s \<and>
       parse_array (skip_ws r2) (rval @ [val]) = Some (v, r)"
proof -
  note eq = assms [unfolded parse_array.simps [of s]]
  from eq obtain val r1 where sc: "scan_once s = Some (val, r1)"
    by (cases "scan_once s") auto
  from eq sc obtain c r2 where w: "skip_ws r1 = c # r2"
    by (cases "skip_ws r1") auto
  from eq sc w
  have "c = 93 \<and> v = PList (rval @ [val]) \<and> r = r2 \<or>
     c \<noteq> 93 \<and> c = 44 \<and> length r2 < length s \<and>
       parse_array (skip_ws r2) (rval @ [val]) = Some (v, r)"
    by (simp split: if_splits)
  with sc w show thesis
    by (intro that [of val r1 c r2]) simp_all
qed

lemma scan_shorter_all:
  "(\<forall>v r. scan_once s = Some (v, r) \<longrightarrow> length r < length s) \<and>
   (\<forall>rval v r. parse_object s rval = Some (v, r) \<longrightarrow> length r < length s) \<and>
   (\<forall>rval v r. parse_array s rval = Some (v, r) \<longrightarrow> length r < length s)"
proof (induction "length s" arbitrary: s rule: less_induct)
  case less
  have IH_obj: "length r < length t"
    if "length t < length s" "parse_object t rval = Some (v, r)" for t rval v r
    using less [of t] that by blast
  have IH_arr: "length r < length t"
    if "length t < length s" "parse_array t rval = Some (v, r)" for t rval v r
    using less [of t] that by blast
  have IH_scan: "length r < length t"
    if "length t < length s" "scan_once t = Some (v, r)" for t v r
    using less [of t] that by blast
  have scan: "length r < length s" if a: "scan_once s = Some (v, r)" for v r
  proof (cases s)
    case Nil
    with a show ?thesis by (simp add: scan_once.simps [of "[]"])
  next
    case (Cons c cs)
    note eq = a [unfolded Cons scan_once_Cons]
    consider "c = 34" | "c \<noteq> 34" "c = 123" | "c \<noteq> 34" "c \<noteq> 123" "c = 91"
      | "c \<noteq> 34" "c \<noteq> 123" "c \<noteq> 91" by blast
    then show ?thesis
    proof cases
      case 1
      with eq obtain k where "scanstring cs [] = Some (k, r)"
        by (cases "scanstring cs []") auto
      then show ?thesis
        using scanstring_shorter [of cs "[]" k r] Cons by simp
    next
      case 2
      with eq obtain c' r' where w: "skip_ws cs = c' # r'"
        by (cases "skip_ws cs") auto
      have lw: "length (c' # r') < length s"
        using skip_ws_length [of cs] w Cons by simp
      show ?thesis
      proof (cases "c' = 125")
        case True
        with eq 2 w have "r = r'" by simp
        with lw show ?thesis by simp
      next
        case False
        with eq 2 w have "parse_object (c' # r') [] = Some (v, r)" by simp
        with lw have "length r < length (c' # r')" by (rule IH_obj)
        with lw show ?thesis by simp
      qed
    next
      case 3
      with eq obtain c' r' where w: "skip_ws cs = c' # r'"
        by (cases "skip_ws cs") auto
      have lw: "length (c' # r') < length s"
        using skip_ws_length [of cs] w Cons by simp
      show ?thesis
      proof (cases "c' = 93")
        case True
        with eq 3 w have "r = r'" by simp
        with lw show ?thesis by simp
      next
        case False
        with eq 3 w have "parse_array (c' # r') [] = Some (v, r)" by simp
        with lw have "length r < length (c' # r')" by (rule IH_arr)
        with lw show ?thesis by simp
      qed
    next
      case 4
      with eq have "literal_or_number (c # cs) = Some (v, r)" by simp
      then have "length r < length (c # cs)"
        by (rule literal_or_number_shorter)
      with Cons show ?thesis by simp
    qed
  qed
  have obj: "length r < length s" if a: "parse_object s rval = Some (v, r)" for rval v r
    using a
  proof (rule parse_object_cases)
    fix cs key r1 r2 val r3 c2 r4
    assume s: "s = 34 # cs" and k: "scanstring cs [] = Some (key, r1)"
      and w1: "skip_ws r1 = 58 # r2" and sc: "scan_once (skip_ws r2) = Some (val, r3)"
      and w2: "skip_ws r3 = c2 # r4"
      and fin: "c2 = 125 \<and> v = PDict (dict_set rval key val) \<and> r = r4 \<or>
        c2 \<noteq> 125 \<and> c2 = 44 \<and> length r4 < length s \<and>
          parse_object (skip_ws r4) (dict_set rval key val) = Some (v, r)"
    have l2: "length (skip_ws r2) < length s"
      using scanstring_shorter [OF k] skip_ws_length [of r1] skip_ws_length [of r2] w1 s by simp
    then have l3: "length r3 < length (skip_ws r2)"
      using sc by (rule IH_scan)
    have l4: "length r4 < length s"
      using l2 l3 skip_ws_length [of r3] w2 by simp
    from fin show "length r < length s"
    proof
      assume "c2 = 125 \<and> v = PDict (dict_set rval key val) \<and> r = r4"
      with l4 show ?thesis by simp
    next
      assume rest: "c2 \<noteq> 125 \<and> c2 = 44 \<and> length r4 < length s \<and>
          parse_object (skip_ws r4) (dict_set rval key val) = Some (v, r)"
      from rest have rec: "parse_object (skip_ws r4) (dict_set rval key val) = Some (v, r)"
        by blast
      have lt: "length (skip_ws r4) < length s"
        using l4 skip_ws_length [of r4] by simp
      then have "length r < length (skip_ws r4)"
        using rec by (rule IH_obj)
      with lt show ?thesis by simp
    qed
  qed
  have arr: "length r < length s" if a: "parse_array s rval = Some (v, r)" for rval v r
    using a
  proof (rule parse_array_cases)
    fix val r1 c r2
    assume sc: "scan_once s = Some (val, r1)" and w: "skip_ws r1 = c # r2"
      and fin: "c = 93 \<and> v = PList (rval @ [val]) \<and> r = r2 \<or>
        c \<noteq> 93 \<and> c = 44 \<and> length r2 < length s \<and>
          parse_array (skip_ws r2) (rval @ [val]) = Some (v, r)"
    have l1: "length r1 < length s"
      using sc by (rule scan)
    have l2: "length r2 < length s"
      using l1 skip_ws_length [of r1] w by simp
    from fin show "length r < length s"
    proof
      assume "c = 93 \<and> v = PList (rval @ [val]) \<and> r = r2"
      with l2 show ?thesis by simp
    next
      assume rest: "c \<noteq> 93 \<and> c = 44 \<and> length r2 < length s \<and>
          parse_array (skip_ws r2) (rval @ [val]) = Some (v, r)"
      from rest have rec: "parse_array (skip_ws r2) (rval @ [val]) = Some (v, r)"
        by blast
      have lt: "length (skip_ws r2) < length s"
        using l2 skip_ws_length [of r2] by simp
      then have "length r < length (skip_ws r2)"
        using rec by (rule IH_arr)
      with lt show ?thesis by simp
    qed
  qed
  from scan obj arr show ?case by blast
qed

lemma scan_once_shorter: "scan_once s = Some (v, r) \<Longrightarrow> length r < length s"
  using scan_shorter_all [of s] by blast

text \<open>The guards of the two loops are never the reason for a failure.\<close>

lemma parse_array_unguarded:
  "parse_array s rval =
     (case scan_once s of
        None \<Rightarrow> None
      | Some (val, r1) \<Rightarrow>
          (case skip_ws r1 of
             [] \<Rightarrow> None
           | c # r2 \<Rightarrow>
               if c = 93 then Some (PList (rval @ [val]), r2)
               else if c = 44 then parse_array (skip_ws r2) (rval @ [val])
               else None))"
proof (cases "scan_once s")
  case None
  then show ?thesis by (simp add: parse_array.simps [of s])
next
  case (Some p)
  obtain val r1 where p: "p = (val, r1)" by (cases p)
  have l1: "length r1 < length s"
    using Some p by (intro scan_once_shorter [of s val r1]) simp
  show ?thesis
  proof (cases "skip_ws r1")
    case Nil
    with Some p show ?thesis by (simp add: parse_array.simps [of s])
  next
    case (Cons c r2)
    then have "length r2 < length s"
      using l1 skip_ws_length [of r1] by simp
    with Some p Cons show ?thesis by (simp add: parse_array.simps [of s])
  qed
qed

lemma parse_object_unguarded:
  "parse_object s rval =
     (case s of
        [] \<Rightarrow> None
      | c # cs \<Rightarrow>
          if c \<noteq> 34 then None
          else
            (case scanstring cs [] of
               None \<Rightarrow> None
             | Some (key, r1) \<Rightarrow>
                 (case skip_ws r1 of
                    [] \<Rightarrow> None
                  | c1 # r2 \<Rightarrow>
                      if c1 \<noteq> 58 then None
                      else
                        (case scan_once (skip_ws r2) of
                           None \<Rightarrow> None
                         | Some (val, r3) \<Rightarrow>
                             (case skip_ws r3 of
                                [] \<Rightarrow> None
                              | c2 # r4 \<Rightarrow>
                                  if c2 = 125 then Some (PDict (dict_set rval key val), r4)
                                  else if c2 = 44
                                  then parse_object (skip_ws r4) (dict_set rval key val)
                                  else None)))))"
  (is "_ = ?rhs")
proof (cases s)
  case Nil
  then show ?thesis by (simp add: parse_object.simps [of "[]"])
next
  case (Cons c cs)
  note unfold = parse_object.simps [of "c # cs" rval]
  show ?thesis
  proof (cases "scanstring cs []")
    case None
    with Cons show ?thesis by (simp add: unfold)
  next
    case (Some p)
    obtain key r1 where p: "p = (key, r1)" by (cases p)
    have k: "scanstring cs [] = Some (key, r1)" using Some p by simp
    show ?thesis
    proof (cases "skip_ws r1")
      case Nil
      with Cons k show ?thesis by (simp add: unfold)
    next
      case w1: (Cons c1 r2)
      show ?thesis
      proof (cases "scan_once (skip_ws r2)")
        case None
        with Cons k w1 show ?thesis by (simp add: unfold)
      next
        case (Some q)
        obtain val r3 where q: "q = (val, r3)" by (cases q)
        have sc: "scan_once (skip_ws r2) = Some (val, r3)" using Some q by simp
        show ?thesis
        proof (cases "skip_ws r3")
          case Nil
          with Cons k w1 sc show ?thesis by (simp add: unfold)
        next
          case w2: (Cons c2 r4)
          have "length r4 < length (c # cs)"
            using scanstring_shorter [OF k] scan_once_shorter [OF sc] w1 w2
              skip_ws_length [of r1] skip_ws_length [of r2] skip_ws_length [of r3]
            by simp
          with Cons k w1 sc w2 show ?thesis by (simp add: unfold)
        qed
      qed
    qed
  qed
qed

section \<open>Facts about the frame splitter\<close>

text \<open>Unfolding the loops by one iteration.\<close>

lemma json_loads_empty: "json_loads [] = None"
  by (simp add: json_loads_def skip_ws_def scan_once.simps)

lemma find_msg_retry:
  assumes "find_str data 125 start = idx" and "slice data len_processed (idx + 1) = substr"
    and "json_loads substr = None"
  shows "find_msg data len_processed start = find_msg data len_processed (start + length substr)"
  using assms by (subst find_msg.simps) simp

lemma find_msg_found:
  assumes "find_str data 125 start = idx" and "slice data len_processed (idx + 1) = substr"
    and "json_loads substr = Some msg" and "msg \<noteq> PNone"
  shows "find_msg data len_processed start = Some (msg, substr)"
  using assms by (subst find_msg.simps) simp

lemma split_loop_next:
  assumes "len_processed < length data" and "data ! len_processed = 123"
    and "find_msg data len_processed len_processed = Some (msg, substr)"
  shows "split_loop data len_processed result =
         split_loop data (len_processed + length substr) (result @ [msg])"
  using assms by (subst split_loop.simps) simp

lemma split_loop_hang:
  assumes "len_processed < length data" and "data ! len_processed = 123"
    and "find_msg data len_processed len_processed = None"
  shows "split_loop data len_processed result = None"
  using assms by (subst split_loop.simps) simp

lemma split_loop_done:
  assumes "\<not> len_processed < length data"
  shows "split_loop data len_processed result = Some (Inr result)"
  using assms by (subst split_loop.simps) simp

text \<open>
  Once no closing brace is left from \<open>start\<close> on, \<^verbatim>\<open>find\<close> returns \<open>-1\<close>, the slice
  \<^verbatim>\<open>data[len_processed:0]\<close> is empty, the empty text does not decode, and \<open>start\<close> stays
  where it is: the inner loop never ends.
\<close>

lemma find_msg_stuck:
  assumes "find_str data 125 start = - 1"
  shows "find_msg data len_processed start = None"
proof (cases "find_msg data len_processed start")
  case None
  then show ?thesis .
next
  case (Some res)
  have "find_str data 125 start \<noteq> - 1"
  proof (rule find_msg.raw_induct
      [where P = "\<lambda>data len_processed start res. find_str data 125 start \<noteq> - 1", OF _ Some])
    fix f data len_processed start res
    assume IH: "\<And>data len_processed start res.
        f data len_processed start = Some res \<Longrightarrow> find_str data 125 start \<noteq> - 1"
      and eq: "(let idx_of_close_bracket = find_str data 125 start;
                    substr = slice data len_processed (idx_of_close_bracket + 1)
                in case json_loads substr of
                     Some msg \<Rightarrow>
                       if msg = PNone then f data len_processed start else Some (msg, substr)
                   | None \<Rightarrow> f data len_processed (start + length substr)) = Some res"
    show "find_str data 125 start \<noteq> - 1"
    proof
      assume stuck: "find_str data 125 start = - 1"
      then have "slice data len_processed (find_str data 125 start + 1) = []"
        by (simp add: slice_def)
      with eq have "f data len_processed start = Some res"
        by (simp add: Let_def json_loads_empty)
      then have "find_str data 125 start \<noteq> - 1" by (rule IH)
      with stuck show False by simp
    qed
  qed
  with assms show ?thesis by simp
qed

lemma split_loop_invalid:
  assumes "len_processed < length data" and "data ! len_processed \<noteq> 123"
  shows "split_loop data len_processed result = Some (Inl AssertionError)"
  using assms by (subst split_loop.simps) simp

text \<open>From a state the outer loop reaches, the loop gives what the whole run gives.\<close>

lemma cursor_at_split_loop:
  "cursor_at data len_processed result \<Longrightarrow>
     split_loop data 0 [] = split_loop data len_processed result"
  by (induction rule: cursor_at.induct) (simp_all add: split_loop_next)

lemma index_of_absent: "c \<notin> set xs \<Longrightarrow> index_of c xs = None"
  by (induction xs) auto

lemma utf8_decode_head:
  "utf8_decode (b # bs) = Some s \<Longrightarrow> s \<noteq> [] \<and> (hd s = 123 \<longrightarrow> b = 123)"
  by (auto simp: Let_def is_cont_def split: if_splits list.splits)

lemmas json_eval =
  json_loads_def skip_ws_def is_ws_def is_digit_def scan_once.simps parse_object.simps
  parse_array.simps literal_or_number_def match_number_def dict_set_def ascii_def Let_def

lemmas text_eval = ascii_def find_str_def slice_def bytes_decode_def

section \<open>Facts about the message model\<close>

text \<open>
  What \<^verbatim>\<open>asdict_ignore_none\<close> returns for an instance of each of the three dataclasses: a
  pair for every field that is not \<^verbatim>\<open>None\<close>, in declaration order, and none for a field
  that is.
\<close>

lemma asdict_ShotDataOptions:
  "asdict_ignore_none (ShotDataOptions_obj opts) =
     Inr ([(ascii ''ContainsBallData'', PBool (ContainsBallData opts)),
           (ascii ''ContainsClubData'', PBool (ContainsClubData opts))] @
          (case LaunchMonitorIsReady opts of
             None \<Rightarrow> [] | Some b \<Rightarrow> [(ascii ''LaunchMonitorIsReady'', PBool b)]) @
          (case LaunchMonitorBallDetected opts of
             None \<Rightarrow> [] | Some b \<Rightarrow> [(ascii ''LaunchMonitorBallDetected'', PBool b)]) @
          (case IsHeartbeat opts of
             None \<Rightarrow> [] | Some b \<Rightarrow> [(ascii ''IsHeartbeat'', PBool b)]))"
  by (simp add: asdict_ignore_none_def ShotDataOptions_obj_def optional_bool_def dict_set_def
      ascii_def split: option.splits)

lemma asdict_BallData:
  "asdict_ignore_none (BallData_obj b) =
     Inr [(ascii ''Speed'', PFloat (Speed b)), (ascii ''SpinAxis'', PFloat (SpinAxis b)),
          (ascii ''TotalSpin'', PFloat (TotalSpin b)), (ascii ''HLA'', PFloat (HLA b)),
          (ascii ''VLA'', PFloat (VLA b))]"
  by (simp add: asdict_ignore_none_def BallData_obj_def dict_set_def ascii_def)

lemma asdict_Shot:
  "asdict_ignore_none (Shot_obj s) =
     Inr ([(ascii ''DeviceID'', PStr (DeviceID s)), (ascii ''Units'', PStr (Units s)),
           (ascii ''ShotNumber'', PInt (ShotNumber s)), (ascii ''APIVersion'', PStr (APIVersion s))] @
          (case BallData s of
             None \<Rightarrow> []
           | Some b \<Rightarrow> [(ascii ''BallData'', PDict (projr (asdict_ignore_none (BallData_obj b))))]) @
          [(ascii ''ShotDataOptions'',
            PDict (projr (asdict_ignore_none (ShotDataOptions_obj (ShotDataOptions s)))))])"
  by (simp add: asdict_ignore_none_def Shot_obj_def BallData_obj_def ShotDataOptions_obj_def
      dict_set_def ascii_def split: option.splits)

text \<open>Serializing a Shot never raises: its dictionary holds no dataclass instance.\<close>

lemma as_msg_encode:
  "as_msg s = Inr (str_encode (encode (PDict (projr (asdict_ignore_none (Shot_obj s))))))"
  by (simp add: as_msg_def asdict_Shot asdict_BallData asdict_ShotDataOptions json_dumps_def
      split: option.splits)

lemma as_msg_total: "\<exists>shot_data. as_msg golfshot = Inr shot_data"
  by (simp add: as_msg_encode)

lemma int_repr_42: \<open>int_repr 42 = ascii ''42''\<close>
  by (simp add: int_repr_def digits.simps [of 42] digits.simps [of 4] ascii_def)

lemma asdict_heartbeat:
  "asdict_ignore_none (Shot_obj (fst (heartbeat n))) =
     Inr [(ascii ''DeviceID'', PStr (ascii ''GSPro LM 1.1'')), (ascii ''Units'', PStr (ascii ''Yards'')),
          (ascii ''ShotNumber'', PInt n), (ascii ''APIVersion'', PStr (ascii ''1'')),
          (ascii ''ShotDataOptions'',
           PDict [(ascii ''ContainsBallData'', PBool False), (ascii ''ContainsClubData'', PBool False),
                  (ascii ''IsHeartbeat'', PBool True)])]"
  by (simp add: asdict_Shot asdict_ShotDataOptions heartbeat_def Shot_new_def post_init_def
      Shot_default_def)

lemma as_msg_heartbeat:
  \<open>as_msg (fst (heartbeat n)) =
     Inr (str_encode
       (ascii ''{"DeviceID": "GSPro LM 1.1", "Units": "Yards", "ShotNumber": '' @ int_repr n @
        ascii '', "APIVersion": "1", "ShotDataOptions": {"ContainsBallData": false, "ContainsClubData": false, "IsHeartbeat": true}}''))\<close>
  unfolding as_msg_encode asdict_heartbeat
  by (simp add: encode_basestring_ascii_def escape_char_def ascii_def)

text \<open>
  The counter: after any action, the Shots constructed so far carry the numbers \<open>n0\<close>,
  \<open>n0 + 1\<close>, \<open>\<dots>\<close> in the order of their construction, and the class attribute holds the
  next one.
\<close>

lemma step_shot_numbers:
  assumes "next_shot_number p = n0 + int (length (shots_built p))"
    and "map ShotNumber (shots_built p) = map (\<lambda>k. n0 + int k) [0..<length (shots_built p)]"
  shows "next_shot_number (step p a) = n0 + int (length (shots_built (step p a))) \<and>
    map ShotNumber (shots_built (step p a)) =
      map (\<lambda>k. n0 + int k) [0..<length (shots_built (step p a))]"
proof (cases a)
  case (Construct args)
  with assms show ?thesis by (simp add: Shot_new_def post_init_def)
next
  case Heartbeat
  with assms show ?thesis by (simp add: heartbeat_def Shot_new_def post_init_def)
next
  case SendHeartbeat
  with assms show ?thesis
    by (simp add: send_heartbeat_def heartbeat_def Shot_new_def post_init_def split: prod.splits)
next
  case (SendShot s)
  with assms show ?thesis by simp
next
  case Close
  with assms show ?thesis by simp
qed

lemma run_shot_numbers:
  assumes "next_shot_number p = n0 + int (length (shots_built p))"
    and "map ShotNumber (shots_built p) = map (\<lambda>k. n0 + int k) [0..<length (shots_built p)]"
  shows "map ShotNumber (shots_built (run p acts)) =
      map (\<lambda>k. n0 + int k) [0..<length (shots_built (run p acts))]"
  using assms
proof (induction acts arbitrary: p)
  case Nil
  then show ?case by (simp add: run_def)
next
  case (Cons a acts)
  have "run p (a # acts) = run (step p a) acts"
    by (simp add: run_def)
  moreover have "map ShotNumber (shots_built (run (step p a) acts)) =
      map (\<lambda>k. n0 + int k) [0..<length (shots_built (run (step p a) acts))]"
    using step_shot_numbers [OF Cons.prems, of a] by (intro Cons.IH) simp_all
  ultimately show ?case by simp
qed

lemma initial_run_shot_numbers:
  "map ShotNumber (shots_built (run (initial_process c) acts)) =
     map (\<lambda>k. initial_shot_number + int k) [0..<length (shots_built (run (initial_process c) acts))]"
  by (rule run_shot_numbers) (simp_all add: initial_process_def)

section \<open>The claims\<close>

text \<open>
  C1. The claim: for every buffer that is the concatenation of \<open>n\<close> well-formed JSON objects,
  the splitter returns the \<open>n\<close> decoded values in order. The code does not: on the single
  object \<^verbatim>\<open>{"a":{"b":{}}}\<close> it never returns. The first probe ends at index 11 and fails, so
  \<open>start\<close> becomes 12; the second ends at index 12 and fails, and
  \<^verbatim>\<open>start = start + len(substr)\<close> adds the length 13 of the text taken from \<open>len_processed\<close>,
  which gives 25, beyond the closing brace at index 13; from there on \<^verbatim>\<open>find\<close> returns \<open>-1\<close>.
\<close>

theorem nested_object_never_returns:
  \<open>parse_gspro_data ''{"a":{"b":{}}}'' = None\<close>
proof -
  define buf where \<open>buf = ascii ''{"a":{"b":{}}}''\<close>
  have dec: \<open>bytes_decode ''{"a":{"b":{}}}'' = Inr buf\<close>
    unfolding buf_def by (simp add: text_eval)
  have len: "0 < length buf" and first: "buf ! 0 = 123"
    unfolding buf_def by (simp_all add: text_eval)
  have i1: "find_str buf 125 0 = 11" and i2: "find_str buf 125 12 = 12"
    and i3: "find_str buf 125 25 = - 1"
    unfolding buf_def by (simp_all add: text_eval)
  have s1: \<open>slice buf 0 (11 + 1) = ascii ''{"a":{"b":{}''\<close>
    and s2: \<open>slice buf 0 (12 + 1) = ascii ''{"a":{"b":{}}''\<close>
    unfolding buf_def by (simp_all add: text_eval)
  have j1: \<open>json_loads (ascii ''{"a":{"b":{}'') = None\<close>
    and j2: \<open>json_loads (ascii ''{"a":{"b":{}}'') = None\<close>
    by (simp_all add: json_eval)
  have l1: \<open>0 + length (ascii ''{"a":{"b":{}'') = 12\<close>
    and l2: \<open>12 + length (ascii ''{"a":{"b":{}}'') = 25\<close>
    by (simp_all add: ascii_def)
  have "find_msg buf 0 0 = find_msg buf 0 12"
    using find_msg_retry [OF i1 s1 j1] l1 by simp
  also have "\<dots> = find_msg buf 0 25"
    using find_msg_retry [OF i2 s2 j2] l2 by simp
  also have "\<dots> = None"
    using i3 by (rule find_msg_stuck)
  finally have "split_loop buf 0 [] = None"
    using len first by (intro split_loop_hang)
  with dec show ?thesis by (simp add: parse_gspro_data_def)
qed

text \<open>
  The buffer of the docstring and of \<^verbatim>\<open>test_resp\<close> is decoded as the claim says: four
  objects in order, the second with \<^verbatim>\<open>Player.Club == "DR"\<close>. Its second object has one nested
  object, directly before its end: the first probe fails and the second succeeds.
\<close>

lemma four_messages:
  \<open>parse_gspro_data ''{"Code":200,"Message":"Ball Data received","Player":null}{"Code":201,"Message":"GSPro Player Information","Player":{"Handed":"RH","Club":"DR","DistanceToTarget":380.0}}{"Code":202,"Message":"GSPro ready","Player":null}{"Code":203,"Message":"GSPro round ended","Player":null}''
   = Some (Inr
      [PDict [(ascii ''Code'', PInt 200), (ascii ''Message'', PStr (ascii ''Ball Data received'')),
              (ascii ''Player'', PNone)],
       PDict [(ascii ''Code'', PInt 201),
              (ascii ''Message'', PStr (ascii ''GSPro Player Information'')),
              (ascii ''Player'',
               PDict [(ascii ''Handed'', PStr (ascii ''RH'')), (ascii ''Club'', PStr (ascii ''DR'')),
                      (ascii ''DistanceToTarget'', PFloat (ascii ''380.0''))])],
       PDict [(ascii ''Code'', PInt 202), (ascii ''Message'', PStr (ascii ''GSPro ready'')),
              (ascii ''Player'', PNone)],
       PDict [(ascii ''Code'', PInt 203), (ascii ''Message'', PStr (ascii ''GSPro round ended'')),
              (ascii ''Player'', PNone)]])\<close>
  (is \<open>parse_gspro_data ?data = Some (Inr [?v1, ?v2, ?v3, ?v4])\<close>)
proof -
  define buf where \<open>buf = ascii ?data\<close>
  define m1 where \<open>m1 = ascii ''{"Code":200,"Message":"Ball Data received","Player":null}''\<close>
  define m2a where \<open>m2a = ascii ''{"Code":201,"Message":"GSPro Player Information","Player":{"Handed":"RH","Club":"DR","DistanceToTarget":380.0}''\<close>
  define m2 where \<open>m2 = ascii ''{"Code":201,"Message":"GSPro Player Information","Player":{"Handed":"RH","Club":"DR","DistanceToTarget":380.0}}''\<close>
  define m3 where \<open>m3 = ascii ''{"Code":202,"Message":"GSPro ready","Player":null}''\<close>
  define m4 where \<open>m4 = ascii ''{"Code":203,"Message":"GSPro round ended","Player":null}''\<close>
  have dec: \<open>bytes_decode ?data = Inr buf\<close>
    unfolding buf_def by (simp add: text_eval)
  have len: "length buf = 274"
    unfolding buf_def by (simp add: text_eval)
  have c: "buf ! 0 = 123" "buf ! 57 = 123" "buf ! 168 = 123" "buf ! 218 = 123"
    unfolding buf_def by (simp_all add: text_eval)
  have i: "find_str buf 125 0 = 56" "find_str buf 125 57 = 166" "find_str buf 125 167 = 167"
    "find_str buf 125 168 = 217" "find_str buf 125 218 = 273"
    unfolding buf_def by (simp_all add: text_eval)
  have s: "slice buf 0 (56 + 1) = m1" "slice buf 57 (166 + 1) = m2a" "slice buf 57 (167 + 1) = m2"
    "slice buf 168 (217 + 1) = m3" "slice buf 218 (273 + 1) = m4"
    unfolding buf_def m1_def m2a_def m2_def m3_def m4_def by (simp_all add: text_eval)
  have j1: "json_loads m1 = Some ?v1"
    unfolding m1_def by (simp add: json_eval)
  have j2a: "json_loads m2a = None"
    unfolding m2a_def by (simp add: json_eval)
  have j2: "json_loads m2 = Some ?v2"
    unfolding m2_def by (simp add: json_eval)
  have j3: "json_loads m3 = Some ?v3"
    unfolding m3_def by (simp add: json_eval)
  have j4: "json_loads m4 = Some ?v4"
    unfolding m4_def by (simp add: json_eval)
  have l: "length m1 = 57" "length m2a = 110" "length m2 = 111" "length m3 = 50" "length m4 = 56"
    unfolding m1_def m2a_def m2_def m3_def m4_def by (simp_all add: ascii_def)
  have f1: "find_msg buf 0 0 = Some (?v1, m1)"
    by (rule find_msg_found [OF i(1) s(1) j1]) simp
  have "find_msg buf 57 57 = find_msg buf 57 167"
    using find_msg_retry [OF i(2) s(2) j2a] l(2) by simp
  then have f2: "find_msg buf 57 57 = Some (?v2, m2)"
    using find_msg_found [OF i(3) s(3) j2] by simp
  have f3: "find_msg buf 168 168 = Some (?v3, m3)"
    by (rule find_msg_found [OF i(4) s(4) j3]) simp
  have f4: "find_msg buf 218 218 = Some (?v4, m4)"
    by (rule find_msg_found [OF i(5) s(5) j4]) simp
  have "split_loop buf 0 [] = split_loop buf 57 [?v1]"
    using split_loop_next [OF _ c(1) f1, of "[]"] len l(1) by simp
  also have "\<dots> = split_loop buf 168 [?v1, ?v2]"
    using split_loop_next [OF _ c(2) f2, of "[?v1]"] len l(3) by simp
  also have "\<dots> = split_loop buf 218 [?v1, ?v2, ?v3]"
    using split_loop_next [OF _ c(3) f3, of "[?v1, ?v2]"] len l(4) by simp
  also have "\<dots> = split_loop buf 274 [?v1, ?v2, ?v3, ?v4]"
    using split_loop_next [OF _ c(4) f4, of "[?v1, ?v2, ?v3]"] len l(5) by simp
  also have "\<dots> = Some (Inr [?v1, ?v2, ?v3, ?v4])"
    using len by (intro split_loop_done) simp
  finally show ?thesis
    using dec by (simp add: parse_gspro_data_def)
qed

text \<open>
  C2 (the claim fails). The claim: \<^verbatim>\<open>receive()\<close> reads once, splits, decodes every object
  into a message, appends the messages to the log and returns them, and signals
  \<^verbatim>\<open>PeerClosed\<close> when the read returns zero bytes. On an open session with nothing pending
  the read returns zero bytes and \<^verbatim>\<open>recv_data\<close> returns normally, the session unchanged:
  nothing is signalled.
\<close>

theorem recv_data_zero_bytes:
  "recv_data \<lparr>gspro_host = ascii ''192.168.1.100'', gspro_port = 921,
               sock = \<lparr>is_closed = False, inbound = [], outbound = [], send_room = 0\<rparr>,
               shots_and_responses = []\<rparr>
   = Some (\<lparr>gspro_host = ascii ''192.168.1.100'', gspro_port = 921,
             sock = \<lparr>is_closed = False, inbound = [], outbound = [], send_room = 0\<rparr>,
             shots_and_responses = []\<rparr>, Inr ())"
  by (simp add: recv_data_def sock_recv_def parse_gspro_data_def bytes_decode_def
      split_loop_done)

text \<open>
  C2 (amended). On a session whose socket is open, \<^verbatim>\<open>recv_data\<close> reads once, at most 2048
  of the pending bytes, and runs the splitter over the bytes read: when the splitter does
  not return, neither does \<^verbatim>\<open>recv_data\<close>; an error of the splitter is raised to the caller,
  the log unchanged; whenever \<^verbatim>\<open>recv_data\<close> ends, exactly the bytes read have left the
  socket; and a read of zero bytes makes it return normally with the session unchanged.
  Its outcome is an error or nothing: no message is returned to the caller.
\<close>

theorem recv_data_amended:
  assumes "\<not> is_closed (sock self)"
  shows "(parse_gspro_data (take 2048 (inbound (sock self))) = None \<longrightarrow> recv_data self = None) \<and>
    (\<forall>e. parse_gspro_data (take 2048 (inbound (sock self))) = Some (Inl e) \<longrightarrow>
       recv_data self =
         Some (self\<lparr>sock := (sock self)\<lparr>inbound := drop 2048 (inbound (sock self))\<rparr>\<rparr>, Inl e)) \<and>
    (\<forall>self' outcome. recv_data self = Some (self', outcome) \<longrightarrow>
       sock self' = (sock self)\<lparr>inbound := drop 2048 (inbound (sock self))\<rparr>) \<and>
    (inbound (sock self) = [] \<longrightarrow> recv_data self = Some (self, Inr ()))"
proof (intro conjI allI impI)
  assume "parse_gspro_data (take 2048 (inbound (sock self))) = None"
  with assms show "recv_data self = None"
    by (simp add: recv_data_def sock_recv_def)
next
  fix e
  assume "parse_gspro_data (take 2048 (inbound (sock self))) = Some (Inl e)"
  with assms show "recv_data self =
      Some (self\<lparr>sock := (sock self)\<lparr>inbound := drop 2048 (inbound (sock self))\<rparr>\<rparr>, Inl e)"
    by (simp add: recv_data_def sock_recv_def)
next
  fix self' outcome
  assume "recv_data self = Some (self', outcome)"
  with assms show "sock self' = (sock self)\<lparr>inbound := drop 2048 (inbound (sock self))\<rparr>"
    by (auto simp: recv_data_def sock_recv_def Let_def split: option.splits sum.splits)
next
  assume "inbound (sock self) = []"
  with assms show "recv_data self = Some (self, Inr ())"
    by (simp add: recv_data_def sock_recv_def parse_gspro_data_def bytes_decode_def
        split_loop_done)
qed

text \<open>The amended claim on an open session whose peer has sent the one byte \<^verbatim>\<open>x\<close>.\<close>

theorem recv_data_amended_witness:
  "recv_data \<lparr>gspro_host = ascii ''192.168.1.100'', gspro_port = 921,
               sock = \<lparr>is_closed = False, inbound = ''x'', outbound = [], send_room = 0\<rparr>,
               shots_and_responses = []\<rparr>
   = Some (\<lparr>gspro_host = ascii ''192.168.1.100'', gspro_port = 921,
             sock = \<lparr>is_closed = False, inbound = [], outbound = [], send_room = 0\<rparr>,
             shots_and_responses = []\<rparr>, Inl AssertionError)"
proof -
  have "parse_gspro_data ''x'' = Some (Inl AssertionError)"
    by (simp add: parse_gspro_data_def bytes_decode_def split_loop_invalid)
  then show ?thesis
    using recv_data_amended
      [of "\<lparr>gspro_host = ascii ''192.168.1.100'', gspro_port = 921,
            sock = \<lparr>is_closed = False, inbound = ''x'', outbound = [], send_room = 0\<rparr>,
            shots_and_responses = []\<rparr>"]
    by simp
qed

text \<open>
  What the amended claim leaves open: as soon as the splitter returns one object,
  \<^verbatim>\<open>GSProMessage.create\<close> raises \<^verbatim>\<open>AttributeError\<close> and nothing is appended to the log.
\<close>

lemma recv_data_attribute_error:
  \<open>recv_data \<lparr>gspro_host = ascii ''192.168.1.100'', gspro_port = 921,
               sock = \<lparr>is_closed = False, inbound = ''{"Code":200}'', outbound = [], send_room = 0\<rparr>,
               shots_and_responses = []\<rparr>
   = Some (\<lparr>gspro_host = ascii ''192.168.1.100'', gspro_port = 921,
             sock = \<lparr>is_closed = False, inbound = [], outbound = [], send_room = 0\<rparr>,
             shots_and_responses = []\<rparr>, Inl AttributeError)\<close>
proof -
  define buf where \<open>buf = ascii ''{"Code":200}''\<close>
  have dec: \<open>bytes_decode ''{"Code":200}'' = Inr buf\<close>
    unfolding buf_def by (simp add: text_eval)
  have f: \<open>find_msg buf 0 0 = Some (PDict [(ascii ''Code'', PInt 200)], ascii ''{"Code":200}'')\<close>
  proof (rule find_msg_found)
    show "find_str buf 125 0 = 11"
      unfolding buf_def by (simp add: text_eval)
    show \<open>slice buf 0 (11 + 1) = ascii ''{"Code":200}''\<close>
      unfolding buf_def by (simp add: text_eval)
    show \<open>json_loads (ascii ''{"Code":200}'') = Some (PDict [(ascii ''Code'', PInt 200)])\<close>
      by (simp add: json_eval)
  qed simp
  have \<open>split_loop buf 0 [] =
      split_loop buf (0 + length (ascii ''{"Code":200}'')) ([] @ [PDict [(ascii ''Code'', PInt 200)]])\<close>
    using _ _ f by (rule split_loop_next) (simp_all add: buf_def ascii_def)
  also have "\<dots> = Some (Inr [PDict [(ascii ''Code'', PInt 200)]])"
    by (subst split_loop_done) (simp_all add: buf_def ascii_def)
  finally have \<open>parse_gspro_data ''{"Code":200}'' = Some (Inr [PDict [(ascii ''Code'', PInt 200)]])\<close>
    using dec by (simp add: parse_gspro_data_def)
  then show ?thesis
    by (simp add: recv_data_def sock_recv_def GSProMessage_create_def)
qed

text \<open>
  An opening brace with no closing brace after it: the splitter never returns.
\<close>

lemma unterminated_frame_never_returns:
  assumes "bytes_decode data = Inr buf" and "cursor_at buf len_processed result"
    and "len_processed < length buf" and "buf ! len_processed = 123"
    and "125 \<notin> set (drop len_processed buf)"
  shows "parse_gspro_data data = None"
proof -
  have "find_str buf 125 len_processed = - 1"
    using assms(5) by (simp add: find_str_def index_of_absent)
  then have "find_msg buf len_processed len_processed = None"
    by (rule find_msg_stuck)
  with assms(3,4) have "split_loop buf len_processed result = None"
    by (rule split_loop_hang)
  with assms(1,2) show ?thesis
    by (simp add: parse_gspro_data_def cursor_at_split_loop)
qed

text \<open>
  C3. The claim: on one complete object followed by a truncated second one the splitter
  ends, reports the incomplete frame, and the first object stays recoverable. The code
  does not end: whenever the outer loop stands at an opening brace and no closing brace
  follows, \<^verbatim>\<open>find\<close> returns \<open>-1\<close> and the inner loop runs forever; nothing is reported and
  the first object is never returned.
\<close>

theorem truncated_frame_never_returns:
  \<open>parse_gspro_data ''{"a":1}{"b":'' = None\<close>
proof -
  define buf where \<open>buf = ascii ''{"a":1}{"b":''\<close>
  have dec: \<open>bytes_decode ''{"a":1}{"b":'' = Inr buf\<close>
    unfolding buf_def by (simp add: text_eval)
  have f: \<open>find_msg buf 0 0 = Some (PDict [(ascii ''a'', PInt 1)], ascii ''{"a":1}'')\<close>
  proof (rule find_msg_found)
    show "find_str buf 125 0 = 6"
      unfolding buf_def by (simp add: text_eval)
    show \<open>slice buf 0 (6 + 1) = ascii ''{"a":1}''\<close>
      unfolding buf_def by (simp add: text_eval)
    show \<open>json_loads (ascii ''{"a":1}'') = Some (PDict [(ascii ''a'', PInt 1)])\<close>
      by (simp add: json_eval)
  qed simp
  have \<open>cursor_at buf (0 + length (ascii ''{"a":1}'')) ([] @ [PDict [(ascii ''a'', PInt 1)]])\<close>
    using cursor_at.start _ _ f
    by (rule cursor_at.next_frame) (simp_all add: buf_def ascii_def)
  then have at: \<open>cursor_at buf 7 [PDict [(ascii ''a'', PInt 1)]]\<close>
    by (simp add: ascii_def eval_nat_numeral)
  show ?thesis
    using dec at by (rule unterminated_frame_never_returns) (simp_all add: buf_def ascii_def)
qed

text \<open>
  C4 (the claim fails). The claim: decoding a reply never fails, and a known field that is
  missing defaults to unset. \<^verbatim>\<open>Code\<close> has no default: a reply without it makes
  \<^verbatim>\<open>cls(**kwargs)\<close> raise \<^verbatim>\<open>TypeError\<close>.
\<close>

theorem create_from_dict_missing_code:
  \<open>create_from_dict [(ascii ''Message'', PStr (ascii ''hi''))] = Inl TypeError\<close>
  by (simp add: create_from_dict_def GSProMessage_fields_def GSProMessage_new_def dict_set_def
      ascii_def)

text \<open>What the loop over the four fields leaves in \<open>dct\<close> and collects in \<open>kwargs\<close>.\<close>

lemma ascii_keys_distinct:
  "ascii ''Code'' \<noteq> ascii ''Message''" "ascii ''Code'' \<noteq> ascii ''Player''"
  "ascii ''Code'' \<noteq> ascii ''Xtra''" "ascii ''Message'' \<noteq> ascii ''Player''"
  "ascii ''Message'' \<noteq> ascii ''Xtra''" "ascii ''Player'' \<noteq> ascii ''Xtra''"
  "ascii ''Message'' \<noteq> ascii ''Code''" "ascii ''Player'' \<noteq> ascii ''Code''"
  "ascii ''Xtra'' \<noteq> ascii ''Code''" "ascii ''Player'' \<noteq> ascii ''Message''"
  "ascii ''Xtra'' \<noteq> ascii ''Message''" "ascii ''Xtra'' \<noteq> ascii ''Player''"
  by (simp_all add: ascii_def)

lemma delete_absent: "map_of d k = None \<Longrightarrow> AList.delete k d = d"
  by (simp add: map_of_eq_None_iff)

lemma pop_fields_step:
  "pop_fields (name # fs) dct kwargs =
     pop_fields fs (AList.delete name dct)
       (case map_of dct name of None \<Rightarrow> kwargs | Some v \<Rightarrow> dict_set kwargs name v)"
  by (cases "map_of dct name") (simp_all add: delete_absent)

lemma delete_four:
  "AList.delete x (AList.delete c (AList.delete b (AList.delete a d))) =
     filter (\<lambda>kv. fst kv \<notin> {a, b, c, x}) d"
  by (induction d) (auto simp: AList.delete_eq)

lemma filter_absent_key:
  "map_of d x = None \<Longrightarrow>
     filter (\<lambda>kv. fst kv \<notin> {a, b, c, x}) d = filter (\<lambda>kv. fst kv \<notin> {a, b, c}) d"
  by (rule filter_cong) (auto simp: map_of_eq_None_iff)

lemma pop_all_fields:
  "pop_fields GSProMessage_fields dct [] =
     (filter (\<lambda>kv. fst kv \<notin> {ascii ''Code'', ascii ''Message'', ascii ''Player'', ascii ''Xtra''}) dct,
      (case map_of dct (ascii ''Code'') of None \<Rightarrow> [] | Some v \<Rightarrow> [(ascii ''Code'', v)]) @
      (case map_of dct (ascii ''Message'') of None \<Rightarrow> [] | Some v \<Rightarrow> [(ascii ''Message'', v)]) @
      (case map_of dct (ascii ''Player'') of None \<Rightarrow> [] | Some v \<Rightarrow> [(ascii ''Player'', v)]) @
      (case map_of dct (ascii ''Xtra'') of None \<Rightarrow> [] | Some v \<Rightarrow> [(ascii ''Xtra'', v)]))"
  unfolding GSProMessage_fields_def pop_fields_step pop_fields.simps(1) delete_four
  by (simp add: AList.delete_conv' ascii_keys_distinct dict_set_def split: option.splits)

text \<open>
  C4 (amended). Decoding fails with \<^verbatim>\<open>TypeError\<close> when the object has no \<^verbatim>\<open>Code\<close>. When it
  has one, and no key named \<^verbatim>\<open>Xtra\<close>, decoding succeeds whatever other keys there are:
  \<^verbatim>\<open>Code\<close>, \<^verbatim>\<open>Message\<close> and \<^verbatim>\<open>Player\<close> are taken out, a missing \<^verbatim>\<open>Message\<close> or \<^verbatim>\<open>Player\<close> is
  \<^verbatim>\<open>None\<close>, and every other pair is kept, in order, in \<^verbatim>\<open>Xtra\<close>.
\<close>

theorem create_from_dict_amended:
  "(map_of dct (ascii ''Code'') = None \<longrightarrow> create_from_dict dct = Inl TypeError) \<and>
   (\<forall>code. map_of dct (ascii ''Code'') = Some code \<and> map_of dct (ascii ''Xtra'') = None \<longrightarrow>
      create_from_dict dct =
        Inr \<lparr>Code = code,
             Message = (case map_of dct (ascii ''Message'') of None \<Rightarrow> PNone | Some v \<Rightarrow> v),
             Player = (case map_of dct (ascii ''Player'') of None \<Rightarrow> PNone | Some v \<Rightarrow> v),
             Xtra = PDict (filter (\<lambda>kv. fst kv \<notin> {ascii ''Code'', ascii ''Message'', ascii ''Player''}) dct)\<rparr>)"
proof (intro conjI allI impI)
  assume "map_of dct (ascii ''Code'') = None"
  then show "create_from_dict dct = Inl TypeError"
    by (simp add: create_from_dict_def pop_all_fields GSProMessage_new_def dict_set_def
        ascii_keys_distinct AList.update_conv' split: option.splits)
next
  fix code
  assume a: "map_of dct (ascii ''Code'') = Some code \<and> map_of dct (ascii ''Xtra'') = None"
  then have "filter (\<lambda>kv. fst kv \<notin> {ascii ''Code'', ascii ''Message'', ascii ''Player'', ascii ''Xtra''}) dct
      = filter (\<lambda>kv. fst kv \<notin> {ascii ''Code'', ascii ''Message'', ascii ''Player''}) dct"
    by (intro filter_absent_key) simp
  with a show "create_from_dict dct =
        Inr \<lparr>Code = code,
             Message = (case map_of dct (ascii ''Message'') of None \<Rightarrow> PNone | Some v \<Rightarrow> v),
             Player = (case map_of dct (ascii ''Player'') of None \<Rightarrow> PNone | Some v \<Rightarrow> v),
             Xtra = PDict (filter (\<lambda>kv. fst kv \<notin> {ascii ''Code'', ascii ''Message'', ascii ''Player''}) dct)\<rparr>"
    unfolding create_from_dict_def pop_all_fields
    by (simp add: GSProMessage_new_def GSProMessage_fields_def
        dict_set_def ascii_keys_distinct split: option.splits)
qed

text \<open>The amended claim on a reply with the extra key \<^verbatim>\<open>Flag\<close>.\<close>

theorem create_from_dict_amended_witness:
  \<open>create_from_dict
     [(ascii ''Code'', PInt 200), (ascii ''Flag'', PBool True),
      (ascii ''Message'', PStr (ascii ''Ball Data received'')), (ascii ''Player'', PNone)]
   = Inr \<lparr>Code = PInt 200, Message = PStr (ascii ''Ball Data received''), Player = PNone,
          Xtra = PDict [(ascii ''Flag'', PBool True)]\<rparr>\<close>
  using create_from_dict_amended
    [of "[(ascii ''Code'', PInt 200), (ascii ''Flag'', PBool True),
          (ascii ''Message'', PStr (ascii ''Ball Data received'')), (ascii ''Player'', PNone)]"]
  by (simp add: ascii_def)

text \<open>
  What the amended claim leaves open: a key named \<^verbatim>\<open>Xtra\<close> in the reply is taken out with
  the fields of the class and then overwritten, so its value is lost.
\<close>

lemma create_from_dict_drops_xtra:
  \<open>create_from_dict [(ascii ''Code'', PInt 200), (ascii ''Xtra'', PInt 5)]
   = Inr \<lparr>Code = PInt 200, Message = PNone, Player = PNone, Xtra = PDict []\<rparr>\<close>
  by (simp add: create_from_dict_def GSProMessage_fields_def GSProMessage_new_def dict_set_def
      ascii_def)

text \<open>
  C5. In every run of the process, from its start with any session, the Shots constructed
  carry the numbers 42, 43, \<open>\<dots>\<close> in the order of their construction, whatever happens to
  the session in between: of two Shots the one constructed later has the strictly greater
  number, so no two have the same.
\<close>

theorem shot_numbers_strictly_increase:
  assumes "i < j" and "j < length (shots_built (run (initial_process c) acts))"
  shows "ShotNumber (shots_built (run (initial_process c) acts) ! i) = 42 + int i \<and>
    ShotNumber (shots_built (run (initial_process c) acts) ! j) = 42 + int j \<and>
    ShotNumber (shots_built (run (initial_process c) acts) ! i)
      < ShotNumber (shots_built (run (initial_process c) acts) ! j)"
proof -
  let ?built = "shots_built (run (initial_process c) acts)"
  have nth: "ShotNumber (?built ! k) = 42 + int k" if "k < length ?built" for k
  proof -
    have "ShotNumber (?built ! k) = map ShotNumber ?built ! k"
      using that by simp
    also have "\<dots> = map (\<lambda>k. initial_shot_number + int k) [0..<length ?built] ! k"
      by (simp only: initial_run_shot_numbers [symmetric])
    also have "\<dots> = 42 + int k"
      using that by (simp add: initial_shot_number_def)
    finally show ?thesis .
  qed
  from assms have "i < length ?built" by simp
  with assms nth [of i] nth [of j] show ?thesis by simp
qed

text \<open>
  A run that constructs a Shot, builds a heartbeat, closes the session and constructs
  another Shot: the first Shot has number 42, the third 44.
\<close>

theorem shot_numbers_strictly_increase_witness:
  "ShotNumber (shots_built (run (initial_process
      \<lparr>gspro_host = ascii ''192.168.1.100'', gspro_port = 921,
        sock = \<lparr>is_closed = False, inbound = [], outbound = [], send_room = 0\<rparr>,
        shots_and_responses = []\<rparr>)
      [Construct Shot_default, Heartbeat, Close, Construct Shot_default]) ! 0) = 42 \<and>
   ShotNumber (shots_built (run (initial_process
      \<lparr>gspro_host = ascii ''192.168.1.100'', gspro_port = 921,
        sock = \<lparr>is_closed = False, inbound = [], outbound = [], send_room = 0\<rparr>,
        shots_and_responses = []\<rparr>)
      [Construct Shot_default, Heartbeat, Close, Construct Shot_default]) ! 2) = 44"
  (is "ShotNumber (shots_built (run (initial_process ?c) ?acts) ! 0) = 42 \<and> _")
proof -
  have "(0 :: nat) < 2" by simp
  moreover have "2 < length (shots_built (run (initial_process ?c) ?acts))"
    by (simp add: run_def initial_process_def Shot_new_def post_init_def heartbeat_def)
  ultimately show ?thesis
    using shot_numbers_strictly_increase [of 0 2 ?c ?acts] by simp
qed

text \<open>
  C6. Serializing a \<^verbatim>\<open>ShotDataOptions\<close> or a \<^verbatim>\<open>Shot\<close> gives an object with exactly the keys of
  the fields that are set. For \<^verbatim>\<open>ShotDataOptions\<close>: the two flags, and each of the three
  optional flags if and only if it is not \<^verbatim>\<open>None\<close>. For a \<^verbatim>\<open>Shot\<close>: its four plain fields,
  \<^verbatim>\<open>BallData\<close> (with its five measurements) if and only if it is not \<^verbatim>\<open>None\<close>, and
  \<^verbatim>\<open>ShotDataOptions\<close> with the object of the nested value. No key is ever stored with
  \<^verbatim>\<open>None\<close>, and the bytes \<^verbatim>\<open>as_msg\<close> returns are the JSON text of that object. In particular
  a default Shot with only \<^verbatim>\<open>BallData\<close> given has \<^verbatim>\<open>ContainsBallData: true\<close>,
  \<^verbatim>\<open>ContainsClubData: false\<close> and none of the three optional flags.
\<close>

theorem serialization_omits_unset:
  "asdict_ignore_none (ShotDataOptions_obj opts) =
     Inr ([(ascii ''ContainsBallData'', PBool (ContainsBallData opts)),
           (ascii ''ContainsClubData'', PBool (ContainsClubData opts))] @
          (case LaunchMonitorIsReady opts of
             None \<Rightarrow> [] | Some v \<Rightarrow> [(ascii ''LaunchMonitorIsReady'', PBool v)]) @
          (case LaunchMonitorBallDetected opts of
             None \<Rightarrow> [] | Some v \<Rightarrow> [(ascii ''LaunchMonitorBallDetected'', PBool v)]) @
          (case IsHeartbeat opts of
             None \<Rightarrow> [] | Some v \<Rightarrow> [(ascii ''IsHeartbeat'', PBool v)])) \<and>
   asdict_ignore_none (Shot_obj s) =
     Inr ([(ascii ''DeviceID'', PStr (DeviceID s)), (ascii ''Units'', PStr (Units s)),
           (ascii ''ShotNumber'', PInt (ShotNumber s)), (ascii ''APIVersion'', PStr (APIVersion s))] @
          (case BallData s of
             None \<Rightarrow> []
           | Some d \<Rightarrow>
               [(ascii ''BallData'',
                 PDict [(ascii ''Speed'', PFloat (Speed d)), (ascii ''SpinAxis'', PFloat (SpinAxis d)),
                        (ascii ''TotalSpin'', PFloat (TotalSpin d)), (ascii ''HLA'', PFloat (HLA d)),
                        (ascii ''VLA'', PFloat (VLA d))])]) @
          [(ascii ''ShotDataOptions'',
            PDict (projr (asdict_ignore_none (ShotDataOptions_obj (ShotDataOptions s)))))]) \<and>
   as_msg s = Inr (str_encode (encode (PDict (projr (asdict_ignore_none (Shot_obj s)))))) \<and>
   asdict_ignore_none (Shot_obj (fst (Shot_new (Shot_default\<lparr>BallData := Some b\<rparr>) n))) =
     Inr [(ascii ''DeviceID'', PStr (ascii ''GSPro LM 1.1'')), (ascii ''Units'', PStr (ascii ''Yards'')),
          (ascii ''ShotNumber'', PInt n), (ascii ''APIVersion'', PStr (ascii ''1'')),
          (ascii ''BallData'',
           PDict [(ascii ''Speed'', PFloat (Speed b)), (ascii ''SpinAxis'', PFloat (SpinAxis b)),
                  (ascii ''TotalSpin'', PFloat (TotalSpin b)), (ascii ''HLA'', PFloat (HLA b)),
                  (ascii ''VLA'', PFloat (VLA b))]),
          (ascii ''ShotDataOptions'',
           PDict [(ascii ''ContainsBallData'', PBool True), (ascii ''ContainsClubData'', PBool False)])]"
proof (intro conjI)
  show "asdict_ignore_none (Shot_obj (fst (Shot_new (Shot_default\<lparr>BallData := Some b\<rparr>) n))) =
     Inr [(ascii ''DeviceID'', PStr (ascii ''GSPro LM 1.1'')), (ascii ''Units'', PStr (ascii ''Yards'')),
          (ascii ''ShotNumber'', PInt n), (ascii ''APIVersion'', PStr (ascii ''1'')),
          (ascii ''BallData'',
           PDict [(ascii ''Speed'', PFloat (Speed b)), (ascii ''SpinAxis'', PFloat (SpinAxis b)),
                  (ascii ''TotalSpin'', PFloat (TotalSpin b)), (ascii ''HLA'', PFloat (HLA b)),
                  (ascii ''VLA'', PFloat (VLA b))]),
          (ascii ''ShotDataOptions'',
           PDict [(ascii ''ContainsBallData'', PBool True), (ascii ''ContainsClubData'', PBool False)])]"
    by (simp add: asdict_Shot asdict_BallData asdict_ShotDataOptions Shot_new_def post_init_def
        Shot_default_def ShotDataOptions_default_def)
qed (simp_all add: asdict_ShotDataOptions asdict_Shot asdict_BallData as_msg_encode
    split: option.splits)

text \<open>
  C7. The heartbeat, whatever the counter \<open>n\<close>: its dictionary has no \<^verbatim>\<open>BallData\<close> key, and
  its \<^verbatim>\<open>ShotDataOptions\<close> holds \<^verbatim>\<open>ContainsBallData: false\<close>, \<^verbatim>\<open>ContainsClubData: false\<close> and
  \<^verbatim>\<open>IsHeartbeat: true\<close>; \<^verbatim>\<open>as_msg\<close> returns the bytes of the JSON text below.
\<close>

theorem heartbeat_serialization:
  \<open>asdict_ignore_none (Shot_obj (fst (heartbeat n))) =
     Inr [(ascii ''DeviceID'', PStr (ascii ''GSPro LM 1.1'')), (ascii ''Units'', PStr (ascii ''Yards'')),
          (ascii ''ShotNumber'', PInt n), (ascii ''APIVersion'', PStr (ascii ''1'')),
          (ascii ''ShotDataOptions'',
           PDict [(ascii ''ContainsBallData'', PBool False), (ascii ''ContainsClubData'', PBool False),
                  (ascii ''IsHeartbeat'', PBool True)])] \<and>
   as_msg (fst (heartbeat n)) =
     Inr (str_encode
       (ascii ''{"DeviceID": "GSPro LM 1.1", "Units": "Yards", "ShotNumber": '' @ int_repr n @
        ascii '', "APIVersion": "1", "ShotDataOptions": {"ContainsBallData": false, "ContainsClubData": false, "IsHeartbeat": true}}''))\<close>
  using asdict_heartbeat as_msg_heartbeat by simp

text \<open>Read back by \<^verbatim>\<open>json.loads\<close>, the text of the first heartbeat is that dictionary.\<close>

lemma heartbeat_wire_text:
  \<open>json_loads (ascii ''{"DeviceID": "GSPro LM 1.1", "Units": "Yards", "ShotNumber": 42, "APIVersion": "1", "ShotDataOptions": {"ContainsBallData": false, "ContainsClubData": false, "IsHeartbeat": true}}'')
   = Some (PDict [(ascii ''DeviceID'', PStr (ascii ''GSPro LM 1.1'')), (ascii ''Units'', PStr (ascii ''Yards'')),
          (ascii ''ShotNumber'', PInt 42), (ascii ''APIVersion'', PStr (ascii ''1'')),
          (ascii ''ShotDataOptions'',
           PDict [(ascii ''ContainsBallData'', PBool False), (ascii ''ContainsClubData'', PBool False),
                  (ascii ''IsHeartbeat'', PBool True)])])\<close>
  by (simp add: json_eval)

text \<open>
  C8 (the claim fails). The claim: for every input buffer whose first unconsumed byte is not
  the opening brace, at the start of the buffer or after a completed object, the splitter
  raises its invalid-frame error, the \<^verbatim>\<open>AssertionError\<close> of the \<^verbatim>\<open>assert\<close> statement. The
  one-byte buffer \<^verbatim>\<open>\xff\<close> does not start with the brace, and in \<^verbatim>\<open>{}\xff\<close> the byte after the
  completed object \<^verbatim>\<open>{}\<close> is not the brace; neither buffer is UTF-8, so \<^verbatim>\<open>data.decode()\<close>
  raises \<^verbatim>\<open>UnicodeDecodeError\<close> before the loop and the assertion is never evaluated.
\<close>

theorem non_utf8_buffer_raises_decode_error:
  \<open>hd [CHR 0xFF] \<noteq> CHR ''{'' \<and>
   parse_gspro_data [CHR 0xFF] = Some (Inl UnicodeDecodeError) \<and>
   parse_gspro_data [CHR 0xFF] \<noteq> Some (Inl AssertionError) \<and>
   parse_gspro_data [CHR ''{'', CHR ''}'', CHR 0xFF] = Some (Inl UnicodeDecodeError) \<and>
   parse_gspro_data [CHR ''{'', CHR ''}'', CHR 0xFF] \<noteq> Some (Inl AssertionError)\<close>
  by (simp add: parse_gspro_data_def bytes_decode_def is_cont_def)

text \<open>
  C8 (amended). For every buffer that decodes as UTF-8: whenever the outer loop stands, at
  the start of the text or after a decoded object, at a character that is not the opening
  brace, the assertion fails and \<^verbatim>\<open>parse_gspro_data\<close> raises \<^verbatim>\<open>AssertionError\<close>; no result is
  returned.
\<close>

theorem invalid_frame_raises:
  assumes "bytes_decode data = Inr buf" and "cursor_at buf len_processed result"
    and "len_processed < length buf" and "buf ! len_processed \<noteq> 123"
  shows "parse_gspro_data data = Some (Inl AssertionError)"
proof -
  have "split_loop buf 0 [] = split_loop buf len_processed result"
    using assms(2) by (rule cursor_at_split_loop)
  also have "\<dots> = Some (Inl AssertionError)"
    using assms(3,4) by (rule split_loop_invalid)
  finally show ?thesis
    using assms(1) by (simp add: parse_gspro_data_def)
qed

text \<open>The buffer \<^verbatim>\<open>{}x\<close>: after the object \<^verbatim>\<open>{}\<close> the loop stands at \<^verbatim>\<open>x\<close>.\<close>

theorem invalid_frame_raises_witness:
  \<open>parse_gspro_data ''{}x'' = Some (Inl AssertionError)\<close>
proof -
  define buf where \<open>buf = ascii ''{}x''\<close>
  have dec: \<open>bytes_decode ''{}x'' = Inr buf\<close>
    unfolding buf_def by (simp add: text_eval)
  have f: \<open>find_msg buf 0 0 = Some (PDict [], ascii ''{}'')\<close>
  proof (rule find_msg_found)
    show "find_str buf 125 0 = 1"
      unfolding buf_def by (simp add: text_eval)
    show \<open>slice buf 0 (1 + 1) = ascii ''{}''\<close>
      unfolding buf_def by (simp add: text_eval)
    show \<open>json_loads (ascii ''{}'') = Some (PDict [])\<close>
      by (simp add: json_eval)
  qed simp
  have "cursor_at buf (0 + length (ascii ''{}'')) ([] @ [PDict []])"
    using cursor_at.start _ _ f
    by (rule cursor_at.next_frame) (simp_all add: buf_def ascii_def)
  then have at: "cursor_at buf 2 [PDict []]"
    by (simp add: ascii_def numeral_2_eq_2)
  show ?thesis
    using dec at by (rule invalid_frame_raises) (simp_all add: buf_def ascii_def)
qed

text \<open>
  A buffer that is not UTF-8 raises \<^verbatim>\<open>UnicodeDecodeError\<close>, whatever its bytes are: the loop is
  not entered.
\<close>

lemma undecodable_buffer_raises:
  assumes "utf8_decode (map of_char data) = None"
  shows "parse_gspro_data data = Some (Inl UnicodeDecodeError)"
  using assms by (simp add: parse_gspro_data_def bytes_decode_def)

text \<open>
  In terms of bytes, at the start of the buffer: a buffer whose first byte is not the
  opening brace never gives a result. It raises \<^verbatim>\<open>AssertionError\<close> when it is UTF-8 and
  \<^verbatim>\<open>UnicodeDecodeError\<close> when it is not.
\<close>

lemma first_byte_not_brace:
  assumes "data \<noteq> []" and "hd data \<noteq> CHR ''{''"
  shows "parse_gspro_data data =
           Some (Inl (case bytes_decode data of Inl e \<Rightarrow> UnicodeDecodeError
                      | Inr buf \<Rightarrow> AssertionError))"
proof (cases "bytes_decode data")
  case (Inl e)
  then show ?thesis
    by (auto simp: parse_gspro_data_def bytes_decode_def split: option.splits)
next
  case (Inr buf)
  from assms obtain c cs where data: "data = c # cs" and c: "c \<noteq> CHR ''{''"
    by (cases data) auto
  have "(of_char c :: nat) \<noteq> of_char CHR ''{''"
    using c by (simp only: of_char_eq_iff not_False_eq_True)
  then have "of_char c \<noteq> (123 :: nat)"
    by simp
  with Inr data have "buf \<noteq> [] \<and> hd buf \<noteq> 123"
    using utf8_decode_head [of "of_char c" "map of_char cs" buf]
    by (auto simp: bytes_decode_def split: option.splits)
  then have "0 < length buf" and "buf ! 0 \<noteq> 123"
    by (auto simp: hd_conv_nth)
  then have "split_loop buf 0 [] = Some (Inl AssertionError)"
    by (rule split_loop_invalid)
  with Inr show ?thesis
    by (simp add: parse_gspro_data_def)
qed

text \<open>
  C9. On a session whose socket is open, \<^verbatim>\<open>send_shot\<close> serializes the Shot, appends it to
  the log and makes one \<^verbatim>\<open>send\<close> call: the socket takes the first \<open>send_room\<close> bytes of the
  payload and no more, and \<^verbatim>\<open>ValueError\<close> is raised if and only if that is fewer than the
  whole payload.
\<close>

theorem send_shot_short_write:
  assumes "\<not> is_closed (sock self)"
  shows "\<exists>shot_data. as_msg golfshot = Inr shot_data \<and>
    send_shot self golfshot =
      (self\<lparr>shots_and_responses := shots_and_responses self @ [LogShot golfshot],
            sock := (sock self)
              \<lparr>outbound := outbound (sock self) @ take (send_room (sock self)) shot_data,
               send_room := send_room (sock self) - length shot_data\<rparr>\<rparr>,
       if send_room (sock self) < length shot_data then Inl ValueError else Inr ())"
proof -
  obtain shot_data where "as_msg golfshot = Inr shot_data"
    using as_msg_total by blast
  with assms show ?thesis
    by (auto simp: send_shot_def sock_send_def Let_def min_def)
qed

text \<open>The first heartbeat on a socket that accepts five bytes.\<close>

theorem send_shot_short_write_witness:
  \<open>send_shot \<lparr>gspro_host = ascii ''192.168.1.100'', gspro_port = 921,
               sock = \<lparr>is_closed = False, inbound = [], outbound = [], send_room = 5\<rparr>,
               shots_and_responses = []\<rparr> (fst (heartbeat 42))
   = (\<lparr>gspro_host = ascii ''192.168.1.100'', gspro_port = 921,
        sock = \<lparr>is_closed = False, inbound = [], outbound = str_encode (ascii ''{"Dev''),
                send_room = 0\<rparr>,
        shots_and_responses = [LogShot (fst (heartbeat 42))]\<rparr>, Inl ValueError)\<close>
  using send_shot_short_write
    [of "\<lparr>gspro_host = ascii ''192.168.1.100'', gspro_port = 921,
          sock = \<lparr>is_closed = False, inbound = [], outbound = [], send_room = 5\<rparr>,
          shots_and_responses = []\<rparr>" "fst (heartbeat 42)"]
    as_msg_heartbeat [of 42]
  by (simp add: int_repr_42 str_encode_def ascii_def)

text \<open>
  C10. When \<^verbatim>\<open>send_shot\<close> raises the \<^verbatim>\<open>ValueError\<close> of the short write, the Shot is in the
  log: it was appended before the \<^verbatim>\<open>send\<close> call.
\<close>

theorem send_shot_logs_before_write:
  assumes "send_shot self golfshot = (self', Inl ValueError)"
  shows "shots_and_responses self' = shots_and_responses self @ [LogShot golfshot]"
proof -
  obtain shot_data where "as_msg golfshot = Inr shot_data"
    using as_msg_total by blast
  with assms show ?thesis
    by (auto simp: send_shot_def sock_send_def Let_def split: if_splits)
qed

text \<open>The first heartbeat on a socket that accepts nothing.\<close>

theorem send_shot_logs_before_write_witness:
  \<open>shots_and_responses (fst (send_shot
      \<lparr>gspro_host = ascii ''192.168.1.100'', gspro_port = 921,
        sock = \<lparr>is_closed = False, inbound = [], outbound = [], send_room = 0\<rparr>,
        shots_and_responses = []\<rparr> (fst (heartbeat 42))))
   = [LogShot (fst (heartbeat 42))] \<and>
   snd (send_shot
      \<lparr>gspro_host = ascii ''192.168.1.100'', gspro_port = 921,
        sock = \<lparr>is_closed = False, inbound = [], outbound = [], send_room = 0\<rparr>,
        shots_and_responses = []\<rparr> (fst (heartbeat 42))) = Inl ValueError\<close>
  (is \<open>shots_and_responses (fst (send_shot ?s ?hb)) = _ \<and> _\<close>)
proof -
  have raised: "snd (send_shot ?s ?hb) = Inl ValueError"
    by (simp add: send_shot_def sock_send_def as_msg_heartbeat int_repr_42 str_encode_def ascii_def)
  then have "send_shot ?s ?hb = (fst (send_shot ?s ?hb), Inl ValueError)"
    by (simp add: prod_eq_iff)
  then have "shots_and_responses (fst (send_shot ?s ?hb)) = shots_and_responses ?s @ [LogShot ?hb]"
    by (rule send_shot_logs_before_write)
  with raised show ?thesis by simp
qed

end
